theory Spec2Isabelle
  imports Main
begin

section \<open>Constants and enums (constants.js)\<close>

definition DEFAULT_SLIDESHOW_DELAY :: int where
  "DEFAULT_SLIDESHOW_DELAY = 5000"

definition DEFAULT_SLIDESHOW_ANIMATION :: string where
  "DEFAULT_SLIDESHOW_ANIMATION = ''fadeIn''"

text \<open>The enum \<open>photowall.SlideshowAction\<close>.\<close>

definition ADD_IMAGE :: string where
  "ADD_IMAGE = ''addImage''"

definition REMOVE_IMAGE :: string where
  "REMOVE_IMAGE = ''removeImage''"

definition CHANGE_DELAY :: string where
  "CHANGE_DELAY = ''changeDelay''"

definition CHANGE_ANIMATION :: string where
  "CHANGE_ANIMATION = ''changeAnimation''"

section \<open>The receiver's state (receiver.js)\<close>

text \<open>
  JavaScript numbers that the script only counts with (indices, sequence numbers, delays in
  milliseconds) are modelled as unbounded integers. The image object sent by a controller has
  the two properties \<open>url\<close> and \<open>thumbnail\<close>; \<open>addImage\<close> attaches the property \<open>id\<close> to it
  (the field \<open>image_id\<close> here, since \<open>id\<close> is HOL's identity function).
\<close>

record photo =
  url :: string
  thumbnail :: string

record image = photo +
  image_id :: int

record slideshow =
  images :: "image list"
  delay :: int
  animation :: string
  currentImageIndex :: int

text \<open>An \<open>Image\<close> element appended to \<open>#slideshow\<close>.\<close>

record img =
  src :: string
  className :: string

text \<open>
  What \<open>sendMessage\<close> is given: a string, or an object. The only object the script ever
  passes is the shared \<open>slideshow\<close> object itself, by reference, so the object case stands
  for that reference and is read when the message is serialized.
\<close>

datatype message = MString string | MSlideshow

text \<open>
  The closure variables of the script (\<open>slideshow\<close>, \<open>imageSequence\<close>, \<open>nextImageTimeout\<close>)
  together with the parts of the browser the script acts on: the table of pending timeouts
  with the last timer id handed out (timer ids are positive), the children of the
  \<open>#slideshow\<close> element, the sources of the \<open>Image\<close> objects created for preloading, the
  \<open>postMessage\<close> calls made through connections (target source, target origin, text), and
  the callbacks that \<open>broadcastMessage\<close> has registered on the resolved \<open>connectionList\<close>
  promise and that have not run yet.
\<close>

record receiver =
  slideshow :: slideshow
  imageSequence :: int
  nextImageTimeout :: "nat option"
  timeouts :: "(nat \<times> int) list"
  lastTimerId :: nat
  slideshowChildren :: "img list"
  preloaded :: "string list"
  posted :: "(string \<times> string \<times> string) list"
  pendingBroadcasts :: "message list"

datatype error = SyntaxError | TypeError | IllTyped

definition initial :: receiver where
  "initial =
     \<lparr>slideshow = \<lparr>images = [], delay = DEFAULT_SLIDESHOW_DELAY,
                    animation = DEFAULT_SLIDESHOW_ANIMATION, currentImageIndex = 0\<rparr>,
      imageSequence = 0, nextImageTimeout = None, timeouts = [], lastTimerId = 0,
      slideshowChildren = [], preloaded = [], posted = [], pendingBroadcasts = []\<rparr>"

subsection \<open>Browser primitives\<close>

text \<open>Reading \<open>xs[i]\<close>: \<open>undefined\<close> (here \<open>None\<close>) outside the array.\<close>

definition element :: "'a list \<Rightarrow> int \<Rightarrow> 'a option" where
  "element xs i = (if 0 \<le> i \<and> i < int (length xs) then Some (xs ! nat i) else None)"

text \<open>\<open>xs.indexOf(x)\<close>: the first position holding \<open>x\<close>, or \<open>-1\<close>.\<close>

fun indexOf :: "'a list \<Rightarrow> 'a \<Rightarrow> int" where
  "indexOf [] x = -1"
| "indexOf (y # ys) x =
     (if y = x then 0 else (let k = indexOf ys x in if k < 0 then -1 else k + 1))"

text \<open>\<open>xs.splice(start, 1)\<close>; a negative \<open>start\<close> counts from the end of the array.\<close>

definition splice1 :: "'a list \<Rightarrow> int \<Rightarrow> 'a list" where
  "splice1 xs start =
     (let len = int (length xs);
          k = (if start < 0 then max (len + start) 0 else min start len)
      in take (nat k) xs @ drop (nat k + 1) xs)"

definition clearTimeout :: "nat \<Rightarrow> receiver \<Rightarrow> receiver" where
  "clearTimeout t r = r\<lparr>timeouts := filter (\<lambda>(t', d). t' \<noteq> t) (timeouts r)\<rparr>"

text \<open>\<open>setTimeout(f, d)\<close> registers a pending timeout and returns its fresh, positive id.\<close>

definition setTimeout :: "int \<Rightarrow> receiver \<Rightarrow> nat \<times> receiver" where
  "setTimeout d r =
     (let t = lastTimerId r + 1
      in (t, r\<lparr>timeouts := timeouts r @ [(t, d)], lastTimerId := t\<rparr>))"

subsection \<open>The slideshow operations\<close>

definition getImageId :: "receiver \<Rightarrow> int \<times> receiver" where
  "getImageId r = (imageSequence r, r\<lparr>imageSequence := imageSequence r + 1\<rparr>)"

text \<open>
  \<open>preloadNextImage\<close>. Reading \<open>.url\<close> of \<open>undefined\<close>, when the index is outside the
  array, raises a TypeError.
\<close>

definition preloadNextImage :: "receiver \<Rightarrow> error + receiver" where
  "preloadNextImage r =
     (let s = slideshow r;
          nextImageIndex = currentImageIndex s + 1;
          nextImageIndex = (if nextImageIndex \<ge> int (length (images s)) then 0
                            else nextImageIndex)
      in if length (images s) > 1
         then (case element (images s) nextImageIndex of
                 None \<Rightarrow> Inl TypeError
               | Some nextImage \<Rightarrow> Inr (r\<lparr>preloaded := preloaded r @ [url nextImage]\<rparr>))
         else Inr r)"

text \<open>
  \<open>showNextImage\<close>. The guard \<open>if (nextImageTimeout)\<close> is a truthiness test: \<open>null\<close> and
  \<open>0\<close> do not pass it.
\<close>

definition showNextImage :: "receiver \<Rightarrow> error + receiver" where
  "showNextImage r =
     (let r1 = (case nextImageTimeout r of
                  None \<Rightarrow> r
                | Some t \<Rightarrow> if t \<noteq> 0 then clearTimeout t r else r);
          s = slideshow r1;
          i = currentImageIndex s + 1;
          i = (if i \<ge> int (length (images s)) then 0 else i);
          r2 = r1\<lparr>slideshow := s\<lparr>currentImageIndex := i\<rparr>\<rparr>
      in if length (images s) = 0
         then Inr (r2\<lparr>slideshowChildren := []\<rparr>)
         else (case element (images s) i of
                 None \<Rightarrow> Inl TypeError
               | Some currentImage \<Rightarrow>
                   (let im = \<lparr>src = url currentImage,
                              className = ''animated '' @ animation s\<rparr>;
                        r3 = r2\<lparr>slideshowChildren := slideshowChildren r2 @ [im]\<rparr>
                    in case preloadNextImage r3 of
                         Inl e \<Rightarrow> Inl e
                       | Inr r4 \<Rightarrow>
                           (let (t, r5) = setTimeout (delay (slideshow r4)) r4
                            in Inr (r5\<lparr>nextImageTimeout := Some t\<rparr>)))))"

text \<open>
  The \<open>webkitAnimationEnd\<close> listener of a shown image: first children are removed while
  there is more than one child.
\<close>

fun removeOldChildren :: "img list \<Rightarrow> img list" where
  "removeOldChildren (x # y # zs) = removeOldChildren (y # zs)"
| "removeOldChildren xs = xs"

definition animationEnd :: "receiver \<Rightarrow> receiver" where
  "animationEnd r = r\<lparr>slideshowChildren := removeOldChildren (slideshowChildren r)\<rparr>"

definition addImage :: "photo \<Rightarrow> receiver \<Rightarrow> error + receiver" where
  "addImage p r =
     (let (n, r1) = getImageId r;
          im = \<lparr>url = url p, thumbnail = thumbnail p, image_id = n\<rparr>;
          s = slideshow r1;
          r2 = r1\<lparr>slideshow := s\<lparr>images := images s @ [im]\<rparr>\<rparr>;
          s2 = slideshow r2
      in case (if currentImageIndex s2 + 2 = int (length (images s2))
               then preloadNextImage r2 else Inr r2) of
           Inl e \<Rightarrow> Inl e
         | Inr r3 \<Rightarrow>
             if length (images (slideshow r3)) = 1 then showNextImage r3 else Inr r3)"

text \<open>
  The callback that \<open>removeImage\<close> passes to \<open>Array.prototype.some\<close>, for an image whose
  id equals the given one. \<open>indexOf\<close> compares objects by identity, and the images of the
  array are distinct objects; here images are compared by value. For the first image of
  the array with the given id, which is the one the callback is called with, the two give
  the same position (\<open>indexOf_first\<close> below).
\<close>

definition removeFound :: "image \<Rightarrow> receiver \<Rightarrow> error + receiver" where
  "removeFound im r =
     (let s = slideshow r;
          imageIndex = indexOf (images s) im;
          s1 = s\<lparr>images := splice1 (images s) imageIndex\<rparr>;
          s2 = (if imageIndex < currentImageIndex s1
                then s1\<lparr>currentImageIndex := currentImageIndex s1 - 1\<rparr> else s1)
      in if imageIndex = currentImageIndex s2
         then showNextImage (r\<lparr>slideshow := s2\<lparr>currentImageIndex := currentImageIndex s2 - 1\<rparr>\<rparr>)
         else Inr (r\<lparr>slideshow := s2\<rparr>))"

text \<open>
  \<open>some\<close> visits the elements in order and stops at the first one for which the callback
  returns a truthy value; the callback changes the array only when it returns \<open>true\<close>.
\<close>

fun some :: "image list \<Rightarrow> int \<Rightarrow> receiver \<Rightarrow> error + (bool \<times> receiver)" where
  "some [] n r = Inr (False, r)"
| "some (im # ims) n r =
     (if image_id im = n
      then (case removeFound im r of Inl e \<Rightarrow> Inl e | Inr r' \<Rightarrow> Inr (True, r'))
      else some ims n r)"

definition removeImage :: "int \<Rightarrow> receiver \<Rightarrow> error + (bool \<times> receiver)" where
  "removeImage n r = some (images (slideshow r)) n r"

definition changeDelay :: "int \<Rightarrow> receiver \<Rightarrow> error + receiver" where
  "changeDelay d r =
     (let s = slideshow r
      in showNextImage
           (r\<lparr>slideshow := s\<lparr>delay := d, currentImageIndex := currentImageIndex s - 1\<rparr>\<rparr>))"

definition changeAnimation :: "string \<Rightarrow> receiver \<Rightarrow> receiver" where
  "changeAnimation a r = r\<lparr>slideshow := (slideshow r)\<lparr>animation := a\<rparr>\<rparr>"

text \<open>A pending timeout fires: the browser drops it from its table and calls the callback.\<close>

definition timeoutFires :: "nat \<Rightarrow> receiver \<Rightarrow> error + receiver" where
  "timeoutFires t r =
     (if t \<in> fst ` set (timeouts r) then showNextImage (clearTimeout t r) else Inr r)"

section \<open>The presentation polyfill (presentation_polyfill.js)\<close>

text \<open>
  The polyfill in src/unnamed/part_001 has the same constructors and the same listener,
  written with arrow functions; this section stands for both.
\<close>

text \<open>
  A handler slot holds \<open>null\<close> or a function; \<open>'h\<close> is the type of the functions that the
  page installs. A connection is built by \<open>new PresentationConnection()\<close> and the three
  assignments that follow it in the listener, so the record has the fields after them
  (\<open>messageOrigin\<close> and \<open>messageSource\<close> are the private fields of those names, written
  with a final underscore in the script).
\<close>

record 'h PresentationConnection =
  connection_id :: string
  state :: string
  onconnect :: "'h option"
  onclose :: "'h option"
  onterminate :: "'h option"
  onmessage :: "'h option"
  messageOrigin :: string
  messageSource :: string

record 'h PresentationConnectionList =
  connections :: "'h PresentationConnection list"
  onconnectionavailable :: "'h option"

text \<open>The variables closed over by the listener that \<open>PresentationReceiver\<close> installs.\<close>

record 'h PresentationReceiver =
  connectionList :: "'h PresentationConnectionList"
  connectionListResolved :: bool

text \<open>
  A \<open>message\<close> event of the window: \<open>e.data.type\<close>, \<open>e.data.data\<close>, \<open>e.origin\<close>,
  \<open>e.source\<close>. Events whose data is not such an object are left out: they change nothing
  (no case of the \<open>switch\<close> matches, or reading \<open>.type\<close> raises before anything is done).
\<close>

record windowMessage =
  message_type :: string
  message_data :: string
  origin :: string
  source :: string

record MessageEvent =
  event_type :: string
  event_data :: string

text \<open>
  The calls the listener makes, in the order it makes them: \<open>resolve(connectionList)\<close>,
  \<open>connectionList.onconnectionavailable(presentationConnection)\<close> with the handler found
  in the slot, and \<open>connection.onmessage(event)\<close> with the position of the connection in
  the list and the handler found in its slot.
\<close>

datatype 'h call =
    Resolve
  | ConnectionAvailable 'h "'h PresentationConnection"
  | OnMessage nat 'h MessageEvent

definition newPresentationReceiver :: "'h PresentationReceiver" where
  "newPresentationReceiver =
     \<lparr>connectionList = \<lparr>connections = [], onconnectionavailable = None\<rparr>,
      connectionListResolved = False\<rparr>"

text \<open>
  The handlers are functions of the page. What calling one does is the parameter \<open>invoke\<close>
  of the listener: from the call and the state of the page it gives the error that the
  call raises, if it raises one, and the state of the page after the call. The listener
  has no \<open>try\<close>, so a call that raises ends it: what follows the call is not executed.
  A call changes the state of the page only, as the handlers of the receiver scripts do;
  a handler that stored into the polyfill's connection list while the listener runs is
  not covered.
\<close>

text \<open>
  The \<open>forEach\<close> of the \<open>APP_MESSAGE\<close> case, from position \<open>i\<close> on: the calls made, the
  error that ended the loop if one did, and the state of the page at the end.
\<close>

fun forEachOnMessage ::
  "('h call \<Rightarrow> 's \<Rightarrow> error option \<times> 's) \<Rightarrow> nat \<Rightarrow> 'h PresentationConnection list
     \<Rightarrow> MessageEvent \<Rightarrow> 's \<Rightarrow> 'h call list \<times> error option \<times> 's" where
  "forEachOnMessage invoke i [] ev s = ([], None, s)"
| "forEachOnMessage invoke i (connection # cs) ev s =
     (case onmessage connection of
        None \<Rightarrow> forEachOnMessage invoke (Suc i) cs ev s
      | Some h \<Rightarrow>
          (case invoke (OnMessage i h ev) s of
             (Some err, s') \<Rightarrow> ([OnMessage i h ev], Some err, s')
           | (None, s') \<Rightarrow>
               (case forEachOnMessage invoke (Suc i) cs ev s' of
                  (calls, out) \<Rightarrow> (OnMessage i h ev # calls, out))))"

text \<open>
  The listener: the polyfill's variables after it, the calls it made, the error that ended
  it if one did, and the state of the page after it.
\<close>

definition windowListener ::
  "('h call \<Rightarrow> 's \<Rightarrow> error option \<times> 's) \<Rightarrow> windowMessage \<Rightarrow> 'h PresentationReceiver \<Rightarrow> 's
     \<Rightarrow> 'h PresentationReceiver \<times> 'h call list \<times> error option \<times> 's" where
  "windowListener invoke e p s =
     (if message_type e = ''NEW_CONNECTION'' then
        (let presentationConnection =
               \<lparr>connection_id = [], state = ''connected'', onconnect = None,
                onclose = None, onterminate = None, onmessage = None,
                messageOrigin = origin e, messageSource = source e\<rparr>;
             l = connectionList p;
             l' = l\<lparr>connections := connections l @ [presentationConnection]\<rparr>;
             p' = p\<lparr>connectionList := l'\<rparr>
         in if \<not> connectionListResolved p'
            then (p'\<lparr>connectionListResolved := True\<rparr>, [Resolve], invoke Resolve s)
            else (case onconnectionavailable l' of
                    Some h \<Rightarrow>
                      (p', [ConnectionAvailable h presentationConnection],
                       invoke (ConnectionAvailable h presentationConnection) s)
                  | None \<Rightarrow> (p', [], None, s)))
      else if message_type e = ''APP_MESSAGE'' then
        (p, forEachOnMessage invoke 0 (connections (connectionList p))
              \<lparr>event_type = ''message'', event_data = message_data e\<rparr> s)
      else (p, [], None, s))"

text \<open>
  What happens to the polyfill's variables over time: window messages arrive, and between
  them the page may store a handler in \<open>onconnectionavailable\<close> or in the \<open>onmessage\<close>
  slot of a connection of the list. An error that ends a listener does not end the page.
\<close>

datatype 'h event =
    Window windowMessage
  | SetOnConnectionAvailable "'h option"
  | SetOnMessage nat "'h option"

fun polyfillStep ::
  "('h call \<Rightarrow> 's \<Rightarrow> error option \<times> 's) \<Rightarrow> 'h event \<Rightarrow> 'h PresentationReceiver \<Rightarrow> 's
     \<Rightarrow> 'h PresentationReceiver \<times> 'h call list \<times> error option \<times> 's" where
  "polyfillStep invoke (Window e) p s = windowListener invoke e p s"
| "polyfillStep invoke (SetOnConnectionAvailable h) p s =
     (p\<lparr>connectionList := (connectionList p)\<lparr>onconnectionavailable := h\<rparr>\<rparr>, [], None, s)"
| "polyfillStep invoke (SetOnMessage i h) p s =
     (let l = connectionList p
      in if i < length (connections l)
         then (p\<lparr>connectionList :=
                   l\<lparr>connections := (connections l)[i := (connections l ! i)\<lparr>onmessage := h\<rparr>]\<rparr>\<rparr>,
               [], None, s)
         else (p, [], None, s))"

text \<open>The calls made over a sequence of events, one list per event.\<close>

fun polyfillRun ::
  "('h call \<Rightarrow> 's \<Rightarrow> error option \<times> 's) \<Rightarrow> 'h event list \<Rightarrow> 'h PresentationReceiver \<Rightarrow> 's
     \<Rightarrow> 'h call list list" where
  "polyfillRun invoke [] p s = []"
| "polyfillRun invoke (ev # evs) p s =
     (case polyfillStep invoke ev p s of
        (p', cs, out, s') \<Rightarrow> cs # polyfillRun invoke evs p' s')"

section \<open>Messaging of the receiver (receiver.js)\<close>

text \<open>
  \<open>PresentationConnection.prototype.send\<close>: a \<open>postMessage\<close> of the text to the connection's
  message source, with its message origin as target origin.
\<close>

definition send :: "'h PresentationConnection \<Rightarrow> string \<Rightarrow> receiver \<Rightarrow> receiver" where
  "send connection text r =
     r\<lparr>posted := posted r @ [(messageSource connection, messageOrigin connection, text)]\<rparr>"

text \<open>
  \<open>JSON.stringify\<close> and \<open>JSON.parse\<close> are the browser's; the script's functions take them
  as the parameters \<open>JSON_stringify\<close> and \<open>JSON_parse\<close>. \<open>JSON_parse\<close> gives \<open>None\<close> where
  \<open>JSON.parse\<close> raises a SyntaxError. The value it gives otherwise (\<open>parsed\<close>, below) is
  \<open>null\<close>, or is read through its \<open>action\<close> and \<open>data\<close> properties only; an action that is
  not a string behaves as any string that is none of the four of the enum.
\<close>

definition sendMessage ::
  "(slideshow \<Rightarrow> string) \<Rightarrow> 'h PresentationConnection \<Rightarrow> message \<Rightarrow> receiver \<Rightarrow> receiver" where
  "sendMessage JSON_stringify connection message r =
     (let text = (case message of
                    MSlideshow \<Rightarrow> JSON_stringify (slideshow r)
                  | MString s \<Rightarrow> s)
      in send connection text r)"

text \<open>
  \<open>broadcastMessage\<close> registers a callback on the \<open>connectionList\<close> promise. The handlers
  that call it exist only once that promise is resolved, so the callback is queued and runs
  when the current task of the page is over.
\<close>

definition broadcastMessage :: "message \<Rightarrow> receiver \<Rightarrow> receiver" where
  "broadcastMessage message r = r\<lparr>pendingBroadcasts := pendingBroadcasts r @ [message]\<rparr>"

text \<open>The queued callback: \<open>list.connections.map\<close> of \<open>sendMessage\<close>.\<close>

definition broadcastCallback ::
  "(slideshow \<Rightarrow> string) \<Rightarrow> message \<Rightarrow> 'h PresentationConnectionList \<Rightarrow> receiver \<Rightarrow> receiver" where
  "broadcastCallback JSON_stringify message list r =
     fold (\<lambda>connection. sendMessage JSON_stringify connection message) (connections list) r"

text \<open>The end of a task: every queued callback runs, in the order of registration.\<close>

definition runCallbacks ::
  "(slideshow \<Rightarrow> string) \<Rightarrow> 'h PresentationConnectionList \<Rightarrow> receiver \<Rightarrow> receiver" where
  "runCallbacks JSON_stringify list r =
     fold (\<lambda>message. broadcastCallback JSON_stringify message list)
       (pendingBroadcasts r) (r\<lparr>pendingBroadcasts := []\<rparr>)"

text \<open>
  The parsed message \<open>{action: ..., data: ...}\<close>. The handlers are typed as their JSDoc
  says: \<open>addImage\<close> takes an image object, \<open>removeImage\<close> and \<open>changeDelay\<close> a number,
  \<open>changeAnimation\<close> a string. A payload of another type than the one its handler
  declares is outside the model: the result \<open>IllTyped\<close> marks it.
\<close>

datatype payload = PImage photo | PNumber int | PString string

record jsonMessage =
  action :: string
  data :: payload

datatype parsed = ParsedNull | Parsed jsonMessage

text \<open>The \<open>switch\<close> of the \<open>onmessage\<close> handler; it has no default case.\<close>

definition switchAction :: "jsonMessage \<Rightarrow> receiver \<Rightarrow> error + receiver" where
  "switchAction jsonMessage r =
     (if action jsonMessage = ADD_IMAGE then
        (case data jsonMessage of PImage p \<Rightarrow> addImage p r | _ \<Rightarrow> Inl IllTyped)
      else if action jsonMessage = REMOVE_IMAGE then
        (case data jsonMessage of
           PNumber n \<Rightarrow> (case removeImage n r of Inl e \<Rightarrow> Inl e | Inr (b, r') \<Rightarrow> Inr r')
         | _ \<Rightarrow> Inl IllTyped)
      else if action jsonMessage = CHANGE_DELAY then
        (case data jsonMessage of PNumber d \<Rightarrow> changeDelay d r | _ \<Rightarrow> Inl IllTyped)
      else if action jsonMessage = CHANGE_ANIMATION then
        (case data jsonMessage of PString a \<Rightarrow> Inr (changeAnimation a r) | _ \<Rightarrow> Inl IllTyped)
      else Inr r)"

text \<open>
  The handler that \<open>addConnection\<close> stores in \<open>connection.onmessage\<close>. Reading \<open>.action\<close>
  of \<open>null\<close> raises a TypeError.
\<close>

definition onmessageHandler ::
  "(string \<Rightarrow> parsed option) \<Rightarrow> MessageEvent \<Rightarrow> receiver \<Rightarrow> error + receiver" where
  "onmessageHandler JSON_parse e r =
     (case JSON_parse (event_data e) of
        None \<Rightarrow> Inl SyntaxError
      | Some ParsedNull \<Rightarrow> Inl TypeError
      | Some (Parsed jsonMessage) \<Rightarrow>
          (case switchAction jsonMessage r of
             Inl err \<Rightarrow> Inl err
           | Inr r' \<Rightarrow> Inr (broadcastMessage MSlideshow r')))"

text \<open>
  The functions the receiver script stores in handler slots. \<open>addConnection\<close> sends the
  state through the connection and stores the message handler in its \<open>onmessage\<close> slot.
\<close>

datatype handler = OnmessageFunction

definition addConnection ::
  "(slideshow \<Rightarrow> string) \<Rightarrow> handler PresentationConnection \<Rightarrow> receiver
     \<Rightarrow> handler PresentationConnection \<times> receiver" where
  "addConnection JSON_stringify connection r =
     (let r1 = sendMessage JSON_stringify connection MSlideshow r
      in (connection\<lparr>onmessage := Some OnmessageFunction\<rparr>, r1))"

section \<open>The second receiver script (src/unnamed/part_000)\<close>

text \<open>
  This script differs from receiver.js in \<open>addConnection\<close> alone, which stores a function
  in \<open>connection.onconnect\<close> instead of sending; its other functions (\<open>addImage\<close>,
  \<open>removeImage\<close>, \<open>changeDelay\<close>, \<open>changeAnimation\<close>, \<open>sendMessage\<close>, \<open>broadcastMessage\<close>,
  \<open>showNextImage\<close>, \<open>preloadNextImage\<close>) are those of receiver.js, statement for statement,
  and are not repeated. The two functions it stores in handler slots are
  \<open>onconnectHandler_part000\<close> and \<open>onmessageHandler_part000\<close>.
\<close>

datatype handler_part000 = OnconnectFunction_part000 | OnmessageFunction_part000

definition onconnectHandler_part000 ::
  "(slideshow \<Rightarrow> string) \<Rightarrow> handler_part000 PresentationConnection \<Rightarrow> receiver \<Rightarrow> receiver" where
  "onconnectHandler_part000 JSON_stringify connection r =
     sendMessage JSON_stringify connection MSlideshow r"

definition onmessageHandler_part000 ::
  "(string \<Rightarrow> parsed option) \<Rightarrow> MessageEvent \<Rightarrow> receiver \<Rightarrow> error + receiver" where
  "onmessageHandler_part000 JSON_parse e r =
     (case JSON_parse (event_data e) of
        None \<Rightarrow> Inl SyntaxError
      | Some ParsedNull \<Rightarrow> Inl TypeError
      | Some (Parsed jsonMessage) \<Rightarrow>
          (case switchAction jsonMessage r of
             Inl err \<Rightarrow> Inl err
           | Inr r' \<Rightarrow> Inr (broadcastMessage MSlideshow r')))"

definition addConnection_part000 ::
  "handler_part000 PresentationConnection \<Rightarrow> receiver
     \<Rightarrow> handler_part000 PresentationConnection \<times> receiver" where
  "addConnection_part000 connection r =
     (connection\<lparr>onconnect := Some OnconnectFunction_part000,
                 onmessage := Some OnmessageFunction_part000\<rparr>, r)"

section \<open>Runs of the receiver\<close>

text \<open>
  What the receiver page reacts to: a message delivered to the \<open>onmessage\<close> handler, a
  pending timeout that expires, the end of an entrance animation, and the end of a task,
  when the queued callbacks run with the connection list of that moment.
\<close>

datatype receiverEvent =
    MessageArrives string
  | TimeoutExpires nat
  | AnimationEnds
  | TaskEnds "handler PresentationConnectionList"

fun receiverStep ::
  "(string \<Rightarrow> parsed option) \<Rightarrow> (slideshow \<Rightarrow> string) \<Rightarrow> receiverEvent \<Rightarrow> receiver
     \<Rightarrow> error + receiver" where
  "receiverStep JSON_parse JSON_stringify (MessageArrives d) r =
     onmessageHandler JSON_parse \<lparr>event_type = ''message'', event_data = d\<rparr> r"
| "receiverStep JSON_parse JSON_stringify (TimeoutExpires t) r = timeoutFires t r"
| "receiverStep JSON_parse JSON_stringify AnimationEnds r = Inr (animationEnd r)"
| "receiverStep JSON_parse JSON_stringify (TaskEnds list) r =
     Inr (runCallbacks JSON_stringify list r)"

text \<open>
  A handler that raises leaves the page running. \<open>JSON.parse\<close> is the first statement of
  the message handler, so a SyntaxError leaves the state as it was and the run goes on; a
  run ends at any other error.
\<close>

fun receiverRun ::
  "(string \<Rightarrow> parsed option) \<Rightarrow> (slideshow \<Rightarrow> string) \<Rightarrow> receiverEvent list \<Rightarrow> receiver
     \<Rightarrow> error + receiver" where
  "receiverRun JSON_parse JSON_stringify [] r = Inr r"
| "receiverRun JSON_parse JSON_stringify (ev # evs) r =
     (case receiverStep JSON_parse JSON_stringify ev r of
        Inl SyntaxError \<Rightarrow> receiverRun JSON_parse JSON_stringify evs r
      | Inl e \<Rightarrow> Inl e
      | Inr r' \<Rightarrow> receiverRun JSON_parse JSON_stringify evs r')"

text \<open>\<open>n\<close> invocations of \<open>showNextImage\<close> in a row.\<close>

fun showNextImageTimes :: "nat \<Rightarrow> receiver \<Rightarrow> error + receiver" where
  "showNextImageTimes 0 r = Inr r"
| "showNextImageTimes (Suc n) r =
     (case showNextImage r of Inl e \<Rightarrow> Inl e | Inr r' \<Rightarrow> showNextImageTimes n r')"

section \<open>Properties\<close>

text \<open>The index is a position of the array, and 0 when the array is empty.\<close>

definition indexInBounds :: "slideshow \<Rightarrow> bool" where
  "indexInBounds s \<longleftrightarrow>
     0 \<le> currentImageIndex s \<and>
     (if images s = [] then currentImageIndex s = 0
      else currentImageIndex s < int (length (images s)))"

text \<open>The index that \<open>showNextImage\<close> and \<open>preloadNextImage\<close> compute from the current one.\<close>

definition nextIndex :: "slideshow \<Rightarrow> int" where
  "nextIndex s = (if currentImageIndex s + 1 \<ge> int (length (images s)) then 0
                  else currentImageIndex s + 1)"

text \<open>
  No timeout is pending, or one is, \<open>nextImageTimeout\<close> holds its id, and the id is one the
  browser has handed out.
\<close>

definition timerInv :: "receiver \<Rightarrow> bool" where
  "timerInv r \<longleftrightarrow>
     timeouts r = [] \<or>
     (length (timeouts r) = 1 \<and> nextImageTimeout r = Some (fst (hd (timeouts r))) \<and>
      0 < fst (hd (timeouts r)) \<and> fst (hd (timeouts r)) \<le> lastTimerId r)"

text \<open>The pending timeouts that the first statement of \<open>showNextImage\<close> leaves.\<close>

definition cleared :: "receiver \<Rightarrow> (nat \<times> int) list" where
  "cleared r = (case nextImageTimeout r of None \<Rightarrow> timeouts r
     | Some t \<Rightarrow> if t \<noteq> 0 then filter (\<lambda>(t', d). t' \<noteq> t) (timeouts r) else timeouts r)"


text \<open>One \<open>postMessage\<close> of the same text per connection of the list, in list order.\<close>

definition postsToAll :: "'h PresentationConnectionList \<Rightarrow> string \<Rightarrow> (string \<times> string \<times> string) list" where
  "postsToAll list text =
     map (\<lambda>connection. (messageSource connection, messageOrigin connection, text))
       (connections list)"

text \<open>
  The calls \<open>onmessage(ev)\<close> for every connection of the list whose \<open>onmessage\<close> slot holds
  a function, in list order, from position \<open>i\<close> on.
\<close>

fun handlerCalls ::
  "nat \<Rightarrow> 'h PresentationConnection list \<Rightarrow> MessageEvent \<Rightarrow> 'h call list" where
  "handlerCalls i [] ev = []"
| "handlerCalls i (connection # cs) ev =
     (case onmessage connection of
        None \<Rightarrow> handlerCalls (Suc i) cs ev
      | Some h \<Rightarrow> OnMessage i h ev # handlerCalls (Suc i) cs ev)"

text \<open>The state of the page after the given calls have been made one after the other.\<close>

fun afterCalls :: "('h call \<Rightarrow> 's \<Rightarrow> error option \<times> 's) \<Rightarrow> 'h call list \<Rightarrow> 's \<Rightarrow> 's" where
  "afterCalls invoke [] s = s"
| "afterCalls invoke (c # cs) s = afterCalls invoke cs (snd (invoke c s))"

text \<open>The event is a \<open>NEW_CONNECTION\<close> window message.\<close>

fun isNewConnection :: "'h event \<Rightarrow> bool" where
  "isNewConnection (Window e) = (message_type e = ''NEW_CONNECTION'')"
| "isNewConnection ev = False"

section \<open>Example states\<close>

text \<open>
  Concrete values at which the theorems below are instantiated: two photos, the receiver
  after \<open>addImage\<close> of the first and then of the second (\<open>showingA_reached\<close>) and after the
  first is removed again, stand-ins for \<open>JSON.parse\<close> and \<open>JSON.stringify\<close>, connections
  and window messages.
\<close>

definition photoA :: photo where
  "photoA = \<lparr>url = ''a.jpg'', thumbnail = ''a_t.jpg''\<rparr>"

definition photoB :: photo where
  "photoB = \<lparr>url = ''b.jpg'', thumbnail = ''b_t.jpg''\<rparr>"

definition imageA :: image where
  "imageA = \<lparr>url = ''a.jpg'', thumbnail = ''a_t.jpg'', image_id = 0\<rparr>"

definition imageB :: image where
  "imageB = \<lparr>url = ''b.jpg'', thumbnail = ''b_t.jpg'', image_id = 1\<rparr>"

definition showingA :: receiver where
  "showingA =
     \<lparr>slideshow = \<lparr>images = [imageA, imageB], delay = 5000, animation = ''fadeIn'',
                    currentImageIndex = 0\<rparr>,
      imageSequence = 2, nextImageTimeout = Some 1, timeouts = [(1, 5000)], lastTimerId = 1,
      slideshowChildren = [\<lparr>src = ''a.jpg'', className = ''animated fadeIn''\<rparr>],
      preloaded = [''b.jpg''], posted = [], pendingBroadcasts = []\<rparr>"

text \<open>
  The state in which \<open>changeDelay\<close> calls \<open>showNextImage\<close> from \<open>showingA\<close> (but for the
  new delay): the index is \<open>-1\<close>.
\<close>

definition enteringShow :: receiver where
  "enteringShow =
     showingA\<lparr>slideshow := (slideshow showingA)\<lparr>currentImageIndex := - 1\<rparr>\<rparr>"

definition afterRemovingA :: receiver where
  "afterRemovingA =
     \<lparr>slideshow = \<lparr>images = [imageB], delay = 5000, animation = ''fadeIn'',
                    currentImageIndex = 0\<rparr>,
      imageSequence = 2, nextImageTimeout = Some 2, timeouts = [(2, 5000)], lastTimerId = 2,
      slideshowChildren = [\<lparr>src = ''a.jpg'', className = ''animated fadeIn''\<rparr>,
                           \<lparr>src = ''b.jpg'', className = ''animated fadeIn''\<rparr>],
      preloaded = [''b.jpg''], posted = [], pendingBroadcasts = []\<rparr>"

definition exampleParse :: "string \<Rightarrow> parsed option" where
  "exampleParse d =
     (if d = ''add A'' then Some (Parsed \<lparr>action = ADD_IMAGE, data = PImage photoA\<rparr>)
      else if d = ''remove 0'' then Some (Parsed \<lparr>action = REMOVE_IMAGE, data = PNumber 0\<rparr>)
      else if d = ''ping'' then Some (Parsed \<lparr>action = ''ping'', data = PString []\<rparr>)
      else if d = ''null'' then Some ParsedNull
      else None)"

definition exampleStringify :: "slideshow \<Rightarrow> string" where
  "exampleStringify s = animation s @ concat (map (\<lambda>im. '' '' @ url im) (images s))"

definition controllerA :: "handler PresentationConnection" where
  "controllerA =
     \<lparr>connection_id = [], state = ''connected'', onconnect = None, onclose = None,
      onterminate = None, onmessage = Some OnmessageFunction,
      messageOrigin = ''https://a.example'', messageSource = ''window A''\<rparr>"

definition controllerB :: "handler PresentationConnection" where
  "controllerB =
     \<lparr>connection_id = [], state = ''connected'', onconnect = None, onclose = None,
      onterminate = None, onmessage = None,
      messageOrigin = ''https://b.example'', messageSource = ''window B''\<rparr>"

definition twoControllers :: "handler PresentationConnectionList" where
  "twoControllers = \<lparr>connections = [controllerA, controllerB], onconnectionavailable = None\<rparr>"

definition listeningB :: "handler PresentationConnection" where
  "listeningB =
     \<lparr>connection_id = [], state = ''connected'', onconnect = None, onclose = None,
      onterminate = None, onmessage = Some OnmessageFunction,
      messageOrigin = ''https://b.example'', messageSource = ''window B''\<rparr>"

definition bothListening :: "handler PresentationConnectionList" where
  "bothListening = \<lparr>connections = [controllerA, listeningB], onconnectionavailable = None\<rparr>"

text \<open>
  A page whose message handlers are the receiver's, with \<open>exampleParse\<close> for \<open>JSON.parse\<close>.
  When the handler raises, the page is taken in the state before the call: the SyntaxError
  of \<open>JSON.parse\<close> and the TypeError at \<open>null\<close>, the errors used below, are raised before
  anything is done. The call of \<open>resolve\<close> does nothing to the page while the listener
  runs.
\<close>

fun receiverPage ::
  "(string \<Rightarrow> parsed option) \<Rightarrow> handler call \<Rightarrow> receiver \<Rightarrow> error option \<times> receiver" where
  "receiverPage JSON_parse (OnMessage i OnmessageFunction e) r =
     (case onmessageHandler JSON_parse e r of
        Inl err \<Rightarrow> (Some err, r)
      | Inr r' \<Rightarrow> (None, r'))"
| "receiverPage JSON_parse c r = (None, r)"

definition freshConnection :: "'h PresentationConnection" where
  "freshConnection =
     \<lparr>connection_id = [], state = ''connected'', onconnect = None, onclose = None,
      onterminate = None, onmessage = None,
      messageOrigin = ''https://a.example'', messageSource = ''window A''\<rparr>"

definition newConnectionFromA :: windowMessage where
  "newConnectionFromA =
     \<lparr>message_type = ''NEW_CONNECTION'', message_data = [],
      origin = ''https://a.example'', source = ''window A''\<rparr>"

definition appMessageFromB :: windowMessage where
  "appMessageFromB =
     \<lparr>message_type = ''APP_MESSAGE'', message_data = ''add A'',
      origin = ''https://b.example'', source = ''window B''\<rparr>"

definition notJSONFromB :: windowMessage where
  "notJSONFromB =
     \<lparr>message_type = ''APP_MESSAGE'', message_data = ''not JSON'',
      origin = ''https://b.example'', source = ''window B''\<rparr>"

section \<open>The slideshow operations, step by step\<close>

lemma preloadNextImage_eq:
  assumes "- 1 \<le> currentImageIndex (slideshow r)"
  shows "preloadNextImage r = Inr (r\<lparr>preloaded := preloaded r @
      (if length (images (slideshow r)) > 1
       then [url (images (slideshow r) ! nat (nextIndex (slideshow r)))] else [])\<rparr>)"
  using assms by (auto simp: preloadNextImage_def Let_def element_def nextIndex_def)

lemma showNextImage_empty:
  assumes "images (slideshow r) = []"
  shows "showNextImage r = Inr (r\<lparr>slideshow := (slideshow r)\<lparr>currentImageIndex := nextIndex (slideshow r)\<rparr>,
      timeouts := cleared r, slideshowChildren := []\<rparr>)"
  using assms
  by (cases "nextImageTimeout r")
     (auto simp: showNextImage_def Let_def nextIndex_def cleared_def clearTimeout_def)

lemma showNextImage_nonempty:
  assumes "images (slideshow r) \<noteq> []" "- 1 \<le> currentImageIndex (slideshow r)"
  shows "showNextImage r = Inr (r\<lparr>slideshow := (slideshow r)\<lparr>currentImageIndex := nextIndex (slideshow r)\<rparr>,
      timeouts := cleared r @ [(lastTimerId r + 1, delay (slideshow r))],
      lastTimerId := lastTimerId r + 1,
      nextImageTimeout := Some (lastTimerId r + 1),
      slideshowChildren := slideshowChildren r @
         [\<lparr>src = url (images (slideshow r) ! nat (nextIndex (slideshow r))),
           className = ''animated '' @ animation (slideshow r)\<rparr>],
      preloaded := preloaded r @
        (if length (images (slideshow r)) > 1
         then [url (images (slideshow r) ! nat (nextIndex
                  ((slideshow r)\<lparr>currentImageIndex := nextIndex (slideshow r)\<rparr>)))] else [])\<rparr>)"
  using assms
  by (cases "nextImageTimeout r")
     (auto simp: showNextImage_def Let_def preloadNextImage_eq setTimeout_def cleared_def
        clearTimeout_def nextIndex_def element_def)

lemma indexOf_first:
  "\<forall>x\<in>set xs. x \<noteq> y \<Longrightarrow> indexOf (xs @ y # ys) y = int (length xs)"
  by (induction xs) (auto simp: Let_def)

lemma splice1_at: "splice1 (xs @ y # ys) (int (length xs)) = xs @ ys"
  by (simp add: splice1_def Let_def)

lemma some_not_found:
  "\<forall>x\<in>set ims. image_id x \<noteq> n \<Longrightarrow> some ims n r = Inr (False, r)"
  by (induction ims) auto

lemma some_found:
  "\<forall>x\<in>set xs. image_id x \<noteq> n \<Longrightarrow> image_id im = n \<Longrightarrow>
   some (xs @ im # ys) n r =
     (case removeFound im r of Inl e \<Rightarrow> Inl e | Inr r' \<Rightarrow> Inr (True, r'))"
  by (induction xs) auto

lemma split_first:
  "\<exists>x\<in>set ims. image_id x = n \<Longrightarrow>
   \<exists>xs im ys. ims = xs @ im # ys \<and> image_id im = n \<and> (\<forall>x\<in>set xs. image_id x \<noteq> n)"
proof -
  assume "\<exists>x\<in>set ims. image_id x = n"
  then obtain xs im ys where "ims = xs @ im # ys" "image_id im = n" "\<forall>x\<in>set xs. \<not> image_id x = n"
    using split_list_first_prop[of ims "\<lambda>x. image_id x = n"] by blast
  then show ?thesis by blast
qed

lemma removeFound_eq:
  assumes "images (slideshow r) = xs @ im # ys" "\<forall>x\<in>set xs. x \<noteq> im"
  shows "removeFound im r =
     (let s = slideshow r; k = int (length xs); c = currentImageIndex s;
          c1 = (if k < c then c - 1 else c)
      in if k = c1
         then showNextImage (r\<lparr>slideshow := s\<lparr>images := xs @ ys, currentImageIndex := c1 - 1\<rparr>\<rparr>)
         else Inr (r\<lparr>slideshow := s\<lparr>images := xs @ ys, currentImageIndex := c1\<rparr>\<rparr>))"
proof -
  have i: "indexOf (images (slideshow r)) im = int (length xs)"
    using assms by (simp add: indexOf_first)
  have s: "splice1 (images (slideshow r)) (indexOf (images (slideshow r)) im) = xs @ ys"
    using assms by (simp add: indexOf_first splice1_at)
  show ?thesis
    unfolding removeFound_def Let_def s unfolding i by simp
qed


lemma cleared_timerInv: "timerInv r \<Longrightarrow> cleared r = []"
  by (cases "timeouts r"; cases "nextImageTimeout r") (auto simp: timerInv_def cleared_def)

lemma nextIndex_bounds:
  "- 1 \<le> currentImageIndex s \<Longrightarrow> indexInBounds (s\<lparr>currentImageIndex := nextIndex s\<rparr>)"
  by (auto simp: indexInBounds_def nextIndex_def)

lemma nextIndex_twice:
  assumes "- 1 \<le> currentImageIndex s" "1 < length (images s)"
  shows "nextIndex (s\<lparr>currentImageIndex := nextIndex s\<rparr>)
     = (nextIndex s + 1) mod int (length (images s))"
proof -
  let ?n = "int (length (images s))"
  let ?c = "currentImageIndex s"
  consider (wrap) "?n \<le> ?c + 1" | (last) "?c + 2 = ?n" | (inside) "?c + 2 < ?n" by linarith
  then show ?thesis
  proof cases
    case wrap
    then show ?thesis using assms by (simp add: nextIndex_def)
  next
    case last
    have a: "nextIndex s = ?c + 1" using last by (simp add: nextIndex_def)
    have "?c + 1 + 1 = ?n" using last by linarith
    then have b: "(?c + 1 + 1) mod ?n = 0" by simp
    show ?thesis unfolding a b using last by (simp add: nextIndex_def)
  next
    case inside
    then show ?thesis using assms by (simp add: nextIndex_def)
  qed
qed

lemma showNextImage_post:
  assumes "- 1 \<le> currentImageIndex (slideshow r)"
  shows "\<exists>r'. showNextImage r = Inr r' \<and>
     slideshow r' = (slideshow r)\<lparr>currentImageIndex := nextIndex (slideshow r)\<rparr> \<and>
     (timerInv r \<longrightarrow> timerInv r') \<and> imageSequence r' = imageSequence r \<and> posted r' = posted r \<and>
     pendingBroadcasts r' = pendingBroadcasts r \<and>
     preloaded r' = preloaded r @
       (if length (images (slideshow r)) > 1
        then [url (images (slideshow r) !
                nat ((nextIndex (slideshow r) + 1) mod int (length (images (slideshow r)))))]
        else [])"
proof (cases "images (slideshow r) = []")
  case True
  show ?thesis
    unfolding showNextImage_empty[OF True] using True
    by (auto simp: cleared_timerInv timerInv_def)
next
  case False
  show ?thesis
    unfolding showNextImage_nonempty[OF False assms(1)] using assms
    by (auto simp: cleared_timerInv timerInv_def nextIndex_twice)
qed

lemma timerInv_slideshow [simp]: "timerInv (r\<lparr>slideshow := s\<rparr>) = timerInv r"
  by (simp add: timerInv_def)

lemma removeImage_not_found:
  "\<forall>x\<in>set (images (slideshow r)). image_id x \<noteq> n \<Longrightarrow> removeImage n r = Inr (False, r)"
  by (simp add: removeImage_def some_not_found)

lemma removeImage_found:
  assumes im: "images (slideshow r) = xs @ im # ys" "\<forall>x\<in>set xs. image_id x \<noteq> n"
    "image_id im = n"
    and inv: "indexInBounds (slideshow r)"
  shows "\<exists>r'. removeImage n r = Inr (True, r') \<and>
     slideshow r' = (slideshow r)\<lparr>images := xs @ ys, currentImageIndex :=
        (if int (length xs) < currentImageIndex (slideshow r)
         then currentImageIndex (slideshow r) - 1
         else if int (length xs) = currentImageIndex (slideshow r)
                 \<and> currentImageIndex (slideshow r) \<ge> int (length (xs @ ys))
         then 0 else currentImageIndex (slideshow r))\<rparr> \<and>
     (timerInv r \<longrightarrow> timerInv r') \<and> imageSequence r' = imageSequence r \<and>
     posted r' = posted r \<and> pendingBroadcasts r' = pendingBroadcasts r"
proof -
  let ?s = "slideshow r"
  let ?c = "currentImageIndex ?s"
  let ?k = "int (length xs)"
  have ne: "\<forall>x\<in>set xs. x \<noteq> im" using im by auto
  have rm: "removeImage n r = (case removeFound im r of Inl e \<Rightarrow> Inl e | Inr r' \<Rightarrow> Inr (True, r'))"
    using im by (simp add: removeImage_def some_found)
  have c: "0 \<le> ?c" "?c < ?k + 1 + int (length ys)"
    using inv im(1) by (auto simp: indexInBounds_def)
  consider (before) "?k + 1 < ?c" | (just) "?k + 1 = ?c" | (at) "?k = ?c" | (after) "?c < ?k"
    by linarith
  then show ?thesis
  proof cases
    case before
    then show ?thesis
      by (simp add: rm removeFound_eq[OF im(1) ne] Let_def)
  next
    case just
    let ?r0 = "r\<lparr>slideshow := ?s\<lparr>images := xs @ ys, currentImageIndex := ?c - 1 - 1\<rparr>\<rparr>"
    have "- 1 \<le> currentImageIndex (slideshow ?r0)" using just c by simp
    then obtain r' where r': "showNextImage ?r0 = Inr r'"
      "slideshow r' = (slideshow ?r0)\<lparr>currentImageIndex := nextIndex (slideshow ?r0)\<rparr>"
      "timerInv ?r0 \<longrightarrow> timerInv r'" "imageSequence r' = imageSequence ?r0"
      "posted r' = posted ?r0" "pendingBroadcasts r' = pendingBroadcasts ?r0"
      using showNextImage_post[of ?r0] by blast
    have "nextIndex (slideshow ?r0) = ?c - 1" using just c by (cases ys) (auto simp: nextIndex_def)
    then show ?thesis using just r' c
      by (simp add: rm removeFound_eq[OF im(1) ne] Let_def)
  next
    case at
    let ?r0 = "r\<lparr>slideshow := ?s\<lparr>images := xs @ ys, currentImageIndex := ?c - 1\<rparr>\<rparr>"
    have "- 1 \<le> currentImageIndex (slideshow ?r0)" using c by simp
    then obtain r' where r': "showNextImage ?r0 = Inr r'"
      "slideshow r' = (slideshow ?r0)\<lparr>currentImageIndex := nextIndex (slideshow ?r0)\<rparr>"
      "timerInv ?r0 \<longrightarrow> timerInv r'" "imageSequence r' = imageSequence ?r0"
      "posted r' = posted ?r0" "pendingBroadcasts r' = pendingBroadcasts ?r0"
      using showNextImage_post[of ?r0] by blast
    have "nextIndex (slideshow ?r0) = (if ?c \<ge> int (length (xs @ ys)) then 0 else ?c)"
      by (simp add: nextIndex_def)
    then show ?thesis using at r' c
      by (simp add: rm removeFound_eq[OF im(1) ne] Let_def)
  next
    case after
    then show ?thesis
      by (simp add: rm removeFound_eq[OF im(1) ne] Let_def)
  qed
qed

lemma addImage_post:
  assumes "indexInBounds (slideshow r)"
  shows "\<exists>r'. addImage p r = Inr r' \<and>
     slideshow r' = (slideshow r)\<lparr>images := images (slideshow r) @
        [\<lparr>url = url p, thumbnail = thumbnail p, image_id = imageSequence r\<rparr>]\<rparr> \<and>
     (timerInv r \<longrightarrow> timerInv r') \<and> imageSequence r' = imageSequence r + 1 \<and>
     posted r' = posted r \<and> pendingBroadcasts r' = pendingBroadcasts r \<and>
     preloaded r' = preloaded r @
       (if currentImageIndex (slideshow r) + 2 = int (length (images (slideshow r))) + 1
        then [url p] else [])"
proof (cases "images (slideshow r) = []")
  case True
  let ?im = "\<lparr>url = url p, thumbnail = thumbnail p, image_id = imageSequence r\<rparr>"
  let ?r2 = "r\<lparr>imageSequence := imageSequence r + 1,
               slideshow := (slideshow r)\<lparr>images := [?im]\<rparr>\<rparr>"
  have c0: "currentImageIndex (slideshow r) = 0" using assms True by (simp add: indexInBounds_def)
  have a: "addImage p r = showNextImage ?r2"
    using True c0 by (simp add: addImage_def getImageId_def Let_def)
  have "- 1 \<le> currentImageIndex (slideshow ?r2)" using c0 by simp
  then obtain r' where r': "showNextImage ?r2 = Inr r'"
      "slideshow r' = (slideshow ?r2)\<lparr>currentImageIndex := nextIndex (slideshow ?r2)\<rparr>"
      "timerInv ?r2 \<longrightarrow> timerInv r'" "imageSequence r' = imageSequence ?r2"
      "posted r' = posted ?r2" "pendingBroadcasts r' = pendingBroadcasts ?r2"
      "preloaded r' = preloaded ?r2 @
       (if length (images (slideshow ?r2)) > 1
        then [url (images (slideshow ?r2) !
                nat ((nextIndex (slideshow ?r2) + 1) mod int (length (images (slideshow ?r2)))))]
        else [])"
    using showNextImage_post[of ?r2] by blast
  have t: "timerInv ?r2 = timerInv r" by (simp add: timerInv_def)
  have "nextIndex (slideshow ?r2) = 0" by (simp add: nextIndex_def c0)
  then show ?thesis
    unfolding a using r' True c0 t by simp
next
  case False
  then have c: "0 \<le> currentImageIndex (slideshow r)"
    "currentImageIndex (slideshow r) < int (length (images (slideshow r)))"
    using assms by (auto simp: indexInBounds_def)
  have l: "length (images (slideshow r)) \<noteq> 0" using False by simp
  show ?thesis
    using False c l
    by (auto simp: addImage_def getImageId_def Let_def preloadNextImage_eq nextIndex_def
          nth_append timerInv_def)
qed

lemma changeDelay_post:
  assumes "indexInBounds (slideshow r)"
  shows "\<exists>r'. changeDelay d r = Inr r' \<and> slideshow r' = (slideshow r)\<lparr>delay := d\<rparr> \<and>
     (timerInv r \<longrightarrow> timerInv r') \<and> imageSequence r' = imageSequence r \<and>
     posted r' = posted r \<and> pendingBroadcasts r' = pendingBroadcasts r"
proof -
  let ?r0 = "r\<lparr>slideshow := (slideshow r)\<lparr>delay := d,
     currentImageIndex := currentImageIndex (slideshow r) - 1\<rparr>\<rparr>"
  have "- 1 \<le> currentImageIndex (slideshow ?r0)" using assms by (simp add: indexInBounds_def)
  then obtain r' where r': "showNextImage ?r0 = Inr r'"
      "slideshow r' = (slideshow ?r0)\<lparr>currentImageIndex := nextIndex (slideshow ?r0)\<rparr>"
      "timerInv ?r0 \<longrightarrow> timerInv r'" "imageSequence r' = imageSequence ?r0"
      "posted r' = posted ?r0" "pendingBroadcasts r' = pendingBroadcasts ?r0"
    using showNextImage_post[of ?r0] by blast
  have "nextIndex (slideshow ?r0) = currentImageIndex (slideshow r)"
    using assms by (auto simp: nextIndex_def indexInBounds_def split: if_splits)
  then show ?thesis using r' by (simp add: changeDelay_def Let_def)
qed

lemma removeImage_post:
  assumes "indexInBounds (slideshow r)"
  shows "\<exists>b r'. removeImage n r = Inr (b, r') \<and> indexInBounds (slideshow r') \<and>
     (timerInv r \<longrightarrow> timerInv r') \<and> posted r' = posted r \<and>
     pendingBroadcasts r' = pendingBroadcasts r"
proof (cases "\<exists>x\<in>set (images (slideshow r)). image_id x = n")
  case True
  then obtain xs im ys where sp: "images (slideshow r) = xs @ im # ys" "image_id im = n"
    "\<forall>x\<in>set xs. image_id x \<noteq> n"
    using split_first by blast
  obtain r' where r': "removeImage n r = Inr (True, r')"
     "slideshow r' = (slideshow r)\<lparr>images := xs @ ys, currentImageIndex :=
        (if int (length xs) < currentImageIndex (slideshow r)
         then currentImageIndex (slideshow r) - 1
         else if int (length xs) = currentImageIndex (slideshow r)
                 \<and> currentImageIndex (slideshow r) \<ge> int (length (xs @ ys))
         then 0 else currentImageIndex (slideshow r))\<rparr>"
     "timerInv r \<longrightarrow> timerInv r'" "posted r' = posted r"
     "pendingBroadcasts r' = pendingBroadcasts r"
    using removeImage_found[OF sp(1) sp(3) sp(2) assms] by blast
  have c: "0 \<le> currentImageIndex (slideshow r)"
    "currentImageIndex (slideshow r) < int (length xs) + 1 + int (length ys)"
    using assms sp(1) by (auto simp: indexInBounds_def)
  have "(int (length xs) + int (length ys) = 0) = (length xs + length ys = 0)" by linarith
  then have e: "(xs @ ys = []) = (int (length xs) + int (length ys) = 0)" by simp
  have "indexInBounds (slideshow r')"
    unfolding r'(2) indexInBounds_def using c
    by (cases ys) (auto simp: e simp del: append_is_Nil_conv)
  then show ?thesis using r' by blast
next
  case False
  then have "removeImage n r = Inr (False, r)" by (simp add: removeImage_not_found)
  then show ?thesis using assms by blast
qed

lemma showingA_reached:
  "(case addImage photoA initial of Inl e \<Rightarrow> Inl e | Inr r \<Rightarrow> addImage photoB r) = Inr showingA"
  by (simp add: addImage_def getImageId_def showNextImage_def preloadNextImage_def
      setTimeout_def clearTimeout_def element_def initial_def showingA_def photoA_def photoB_def
      imageA_def imageB_def Let_def DEFAULT_SLIDESHOW_DELAY_def DEFAULT_SLIDESHOW_ANIMATION_def)

lemma showNextImage_step:
  assumes "images (slideshow r) \<noteq> []" "indexInBounds (slideshow r)"
  shows "\<exists>r'. showNextImage r = Inr r' \<and> images (slideshow r') = images (slideshow r) \<and>
     indexInBounds (slideshow r') \<and>
     currentImageIndex (slideshow r') =
       (currentImageIndex (slideshow r) + 1) mod int (length (images (slideshow r)))"
proof -
  have c: "0 \<le> currentImageIndex (slideshow r)"
    "currentImageIndex (slideshow r) < int (length (images (slideshow r)))"
    using assms by (auto simp: indexInBounds_def)
  then have "- 1 \<le> currentImageIndex (slideshow r)" by simp
  from showNextImage_post[OF this] obtain r' where r': "showNextImage r = Inr r'"
     "slideshow r' = (slideshow r)\<lparr>currentImageIndex := nextIndex (slideshow r)\<rparr>" by blast
  have "nextIndex (slideshow r)
     = (currentImageIndex (slideshow r) + 1) mod int (length (images (slideshow r)))"
  proof (cases "currentImageIndex (slideshow r) + 1 = int (length (images (slideshow r)))")
    case True
    then show ?thesis by (simp add: nextIndex_def)
  next
    case False
    then show ?thesis using c by (simp add: nextIndex_def)
  qed
  moreover have "indexInBounds (slideshow r')"
    unfolding r'(2) using c by (intro nextIndex_bounds) simp
  ultimately show ?thesis using r' by simp
qed

lemma showNextImageTimes_cycle:
  assumes "images (slideshow r) \<noteq> []" "indexInBounds (slideshow r)"
  shows "\<exists>r'. showNextImageTimes n r = Inr r' \<and> images (slideshow r') = images (slideshow r) \<and>
     currentImageIndex (slideshow r') =
       (currentImageIndex (slideshow r) + int n) mod int (length (images (slideshow r)))"
  using assms
proof (induction n arbitrary: r)
  case 0
  then show ?case by (auto simp: indexInBounds_def)
next
  case (Suc n)
  from showNextImage_step[OF Suc.prems] obtain r1 where r1: "showNextImage r = Inr r1"
    "images (slideshow r1) = images (slideshow r)" "indexInBounds (slideshow r1)"
    "currentImageIndex (slideshow r1) =
       (currentImageIndex (slideshow r) + 1) mod int (length (images (slideshow r)))" by blast
  have "images (slideshow r1) \<noteq> []" using r1(2) Suc.prems(1) by simp
  from Suc.IH[OF this r1(3)] obtain r' where r': "showNextImageTimes n r1 = Inr r'"
    "images (slideshow r') = images (slideshow r1)"
    "currentImageIndex (slideshow r') =
       (currentImageIndex (slideshow r1) + int n) mod int (length (images (slideshow r1)))" by blast
  have "(currentImageIndex (slideshow r1) + int n) mod int (length (images (slideshow r1)))
     = (currentImageIndex (slideshow r) + int (Suc n)) mod int (length (images (slideshow r)))"
    unfolding r1(2) r1(4) mod_add_left_eq by (simp add: algebra_simps)
  then show ?case using r1 r' by simp
qed

section \<open>The claims\<close>

subsection \<open>The slideshow\<close>

text \<open>
  C3. The slideshow goes round. With a non-empty image list (and an index of at least \<open>-1\<close>, as
  at every call in the script) \<open>showNextImage\<close> increments \<open>currentImageIndex\<close> by one and
  wraps it to 0 when the incremented index is at least the number of images, and appends
  the image at the new index to the slideshow element; \<open>n\<close> invocations from an index in
  bounds move the index \<open>n\<close> places forward modulo the number of images. With an empty
  image list the slideshow element is cleared instead.
\<close>

theorem showNextImage_cycles:
  "(images (slideshow r) \<noteq> [] \<and> - 1 \<le> currentImageIndex (slideshow r) \<longrightarrow>
      (\<exists>r'. showNextImage r = Inr r' \<and>
         images (slideshow r') = images (slideshow r) \<and>
         currentImageIndex (slideshow r') =
           (if currentImageIndex (slideshow r) + 1 \<ge> int (length (images (slideshow r)))
            then 0 else currentImageIndex (slideshow r) + 1) \<and>
         slideshowChildren r' = slideshowChildren r @
           [\<lparr>src = url (images (slideshow r) ! nat (currentImageIndex (slideshow r'))),
             className = ''animated '' @ animation (slideshow r)\<rparr>])) \<and>
   (images (slideshow r) \<noteq> [] \<and> indexInBounds (slideshow r) \<longrightarrow>
      (\<exists>r'. showNextImageTimes n r = Inr r' \<and>
         images (slideshow r') = images (slideshow r) \<and>
         currentImageIndex (slideshow r') =
           (currentImageIndex (slideshow r) + int n) mod int (length (images (slideshow r))))) \<and>
   (images (slideshow r) = [] \<longrightarrow>
      (\<exists>r'. showNextImage r = Inr r' \<and> slideshowChildren r' = [] \<and>
         images (slideshow r') = []))"
proof (intro conjI impI)
  assume a: "images (slideshow r) \<noteq> [] \<and> - 1 \<le> currentImageIndex (slideshow r)"
  then have ne: "images (slideshow r) \<noteq> []" and ge: "- 1 \<le> currentImageIndex (slideshow r)"
    by simp_all
  show "\<exists>r'. showNextImage r = Inr r' \<and>
         images (slideshow r') = images (slideshow r) \<and>
         currentImageIndex (slideshow r') =
           (if currentImageIndex (slideshow r) + 1 \<ge> int (length (images (slideshow r)))
            then 0 else currentImageIndex (slideshow r) + 1) \<and>
         slideshowChildren r' = slideshowChildren r @
           [\<lparr>src = url (images (slideshow r) ! nat (currentImageIndex (slideshow r'))),
             className = ''animated '' @ animation (slideshow r)\<rparr>]"
    unfolding showNextImage_nonempty[OF ne ge] by (simp add: nextIndex_def)
next
  assume "images (slideshow r) \<noteq> [] \<and> indexInBounds (slideshow r)"
  then show "\<exists>r'. showNextImageTimes n r = Inr r' \<and>
         images (slideshow r') = images (slideshow r) \<and>
         currentImageIndex (slideshow r') =
           (currentImageIndex (slideshow r) + int n) mod int (length (images (slideshow r)))"
    using showNextImageTimes_cycle by blast
next
  assume e: "images (slideshow r) = []"
  show "\<exists>r'. showNextImage r = Inr r' \<and> slideshowChildren r' = [] \<and> images (slideshow r') = []"
    unfolding showNextImage_empty[OF e] using e by simp
qed

theorem showNextImage_cycles_witness:
  "images (slideshow showingA) \<noteq> [] \<and> - 1 \<le> currentImageIndex (slideshow showingA) \<and>
   indexInBounds (slideshow showingA) \<and> images (slideshow initial) = [] \<and>
   (\<exists>r'. showNextImage showingA = Inr r' \<and> currentImageIndex (slideshow r') = 1 \<and>
      slideshowChildren r' = [\<lparr>src = ''a.jpg'', className = ''animated fadeIn''\<rparr>,
                              \<lparr>src = ''b.jpg'', className = ''animated fadeIn''\<rparr>]) \<and>
   (\<exists>r'. showNextImageTimes 5 showingA = Inr r' \<and> currentImageIndex (slideshow r') = 1) \<and>
   (\<exists>r'. showNextImage initial = Inr r' \<and> slideshowChildren r' = [])"
proof -
  have h: "images (slideshow showingA) \<noteq> []" "- 1 \<le> currentImageIndex (slideshow showingA)"
    "indexInBounds (slideshow showingA)" "images (slideshow initial) = []"
    by (simp_all add: showingA_def initial_def indexInBounds_def)
  have v: "images (slideshow showingA) = [imageA, imageB]"
    "currentImageIndex (slideshow showingA) = 0" "animation (slideshow showingA) = ''fadeIn''"
    "slideshowChildren showingA = [\<lparr>src = ''a.jpg'', className = ''animated fadeIn''\<rparr>]"
    "url imageA = ''a.jpg''" "url imageB = ''b.jpg''"
    by (simp_all add: showingA_def imageA_def imageB_def)
  from showNextImage_cycles[of showingA 5] h
  have a1: "\<exists>r'. showNextImage showingA = Inr r' \<and>
         images (slideshow r') = images (slideshow showingA) \<and>
         currentImageIndex (slideshow r') =
           (if currentImageIndex (slideshow showingA) + 1 \<ge> int (length (images (slideshow showingA)))
            then 0 else currentImageIndex (slideshow showingA) + 1) \<and>
         slideshowChildren r' = slideshowChildren showingA @
           [\<lparr>src = url (images (slideshow showingA) ! nat (currentImageIndex (slideshow r'))),
             className = ''animated '' @ animation (slideshow showingA)\<rparr>]"
   and a2: "\<exists>r'. showNextImageTimes 5 showingA = Inr r' \<and>
         images (slideshow r') = images (slideshow showingA) \<and>
         currentImageIndex (slideshow r') =
           (currentImageIndex (slideshow showingA) + int 5) mod int (length (images (slideshow showingA)))"
    by (blast+)
  from showNextImage_cycles[of initial 0] h
  have a3: "\<exists>r'. showNextImage initial = Inr r' \<and> slideshowChildren r' = [] \<and>
         images (slideshow r') = []" by blast
  from a1 have b1: "\<exists>r'. showNextImage showingA = Inr r' \<and> currentImageIndex (slideshow r') = 1 \<and>
      slideshowChildren r' = [\<lparr>src = ''a.jpg'', className = ''animated fadeIn''\<rparr>,
                              \<lparr>src = ''b.jpg'', className = ''animated fadeIn''\<rparr>]"
    by (auto simp: v)
  from a2 have b2: "\<exists>r'. showNextImageTimes 5 showingA = Inr r' \<and> currentImageIndex (slideshow r') = 1"
    by (auto simp: v)
  show ?thesis using h b1 b2 a3 by blast
qed

text \<open>
  C4. Every slideshow operation keeps the index in bounds: from a state where
  \<open>currentImageIndex\<close> is at least 0, less than the number of images when there are
  images, and 0 when there are none, each of \<open>addImage\<close>, \<open>removeImage\<close>, \<open>changeDelay\<close>,
  \<open>changeAnimation\<close> and \<open>showNextImage\<close> returns without a TypeError, in a state where the
  same holds; so the read \<open>slideshow.images[slideshow.currentImageIndex]\<close> of
  \<open>showNextImage\<close> is inside the array.
\<close>

theorem index_stays_in_bounds:
  assumes "indexInBounds (slideshow r)"
  shows "(\<exists>r'. addImage p r = Inr r' \<and> indexInBounds (slideshow r')) \<and>
    (\<exists>b r'. removeImage n r = Inr (b, r') \<and> indexInBounds (slideshow r')) \<and>
    (\<exists>r'. changeDelay d r = Inr r' \<and> indexInBounds (slideshow r')) \<and>
    indexInBounds (slideshow (changeAnimation a r)) \<and>
    (\<exists>r'. showNextImage r = Inr r' \<and> indexInBounds (slideshow r') \<and>
       (images (slideshow r') \<noteq> [] \<longrightarrow>
          element (images (slideshow r')) (currentImageIndex (slideshow r'))
            = Some (images (slideshow r') ! nat (currentImageIndex (slideshow r')))))"
proof (intro conjI)
  from addImage_post[OF assms, of p] obtain r' where r': "addImage p r = Inr r'"
    "slideshow r' = (slideshow r)\<lparr>images := images (slideshow r) @
        [\<lparr>url = url p, thumbnail = thumbnail p, image_id = imageSequence r\<rparr>]\<rparr>" by blast
  have "indexInBounds (slideshow r')"
    unfolding r'(2) using assms by (auto simp: indexInBounds_def split: if_splits)
  then show "\<exists>r'. addImage p r = Inr r' \<and> indexInBounds (slideshow r')" using r' by blast
next
  show "\<exists>b r'. removeImage n r = Inr (b, r') \<and> indexInBounds (slideshow r')"
    using removeImage_post[OF assms, of n] by blast
next
  from changeDelay_post[OF assms, of d] obtain r' where r': "changeDelay d r = Inr r'"
    "slideshow r' = (slideshow r)\<lparr>delay := d\<rparr>" by blast
  have "indexInBounds (slideshow r')" unfolding r'(2) using assms by (simp add: indexInBounds_def)
  then show "\<exists>r'. changeDelay d r = Inr r' \<and> indexInBounds (slideshow r')" using r' by blast
next
  show "indexInBounds (slideshow (changeAnimation a r))"
    using assms by (simp add: changeAnimation_def indexInBounds_def)
next
  have ge: "- 1 \<le> currentImageIndex (slideshow r)" using assms by (simp add: indexInBounds_def)
  from showNextImage_post[OF ge] obtain r' where r': "showNextImage r = Inr r'"
    "slideshow r' = (slideshow r)\<lparr>currentImageIndex := nextIndex (slideshow r)\<rparr>" by blast
  have b: "indexInBounds (slideshow r')" unfolding r'(2) using ge by (rule nextIndex_bounds)
  then have "images (slideshow r') \<noteq> [] \<longrightarrow>
          element (images (slideshow r')) (currentImageIndex (slideshow r'))
            = Some (images (slideshow r') ! nat (currentImageIndex (slideshow r')))"
    by (auto simp: indexInBounds_def element_def)
  then show "\<exists>r'. showNextImage r = Inr r' \<and> indexInBounds (slideshow r') \<and>
       (images (slideshow r') \<noteq> [] \<longrightarrow>
          element (images (slideshow r')) (currentImageIndex (slideshow r'))
            = Some (images (slideshow r') ! nat (currentImageIndex (slideshow r'))))"
    using r' b by blast
qed

theorem index_stays_in_bounds_witness:
  "indexInBounds (slideshow showingA) \<and>
   (\<exists>r'. addImage photoB showingA = Inr r' \<and> indexInBounds (slideshow r')) \<and>
   (\<exists>b r'. removeImage 0 showingA = Inr (b, r') \<and> indexInBounds (slideshow r')) \<and>
   (\<exists>r'. changeDelay 3000 showingA = Inr r' \<and> indexInBounds (slideshow r')) \<and>
   indexInBounds (slideshow (changeAnimation ''bounce'' showingA)) \<and>
   (\<exists>r'. showNextImage showingA = Inr r' \<and> indexInBounds (slideshow r'))"
proof -
  have h: "indexInBounds (slideshow showingA)"
    by (simp add: showingA_def indexInBounds_def)
  show ?thesis
    using h index_stays_in_bounds[OF h, of photoB 0 3000 "''bounce''"] by blast
qed

lemma removeImage_shape:
  assumes im: "images (slideshow r) = xs @ im # ys" "\<forall>x\<in>set xs. image_id x \<noteq> n"
    "image_id im = n"
  shows "removeImage n r =
     (let s = slideshow r; k = int (length xs); c = currentImageIndex s;
          c1 = (if k < c then c - 1 else c)
      in if k = c1
         then (case showNextImage
                      (r\<lparr>slideshow := s\<lparr>images := xs @ ys, currentImageIndex := c1 - 1\<rparr>\<rparr>) of
                 Inl e \<Rightarrow> Inl e
               | Inr r' \<Rightarrow> Inr (True, r'))
         else Inr (True, r\<lparr>slideshow := s\<lparr>images := xs @ ys, currentImageIndex := c1\<rparr>\<rparr>))"
proof -
  have ne: "\<forall>x\<in>set xs. x \<noteq> im" using im by auto
  have "removeImage n r = (case removeFound im r of Inl e \<Rightarrow> Inl e | Inr r' \<Rightarrow> Inr (True, r'))"
    using im by (simp add: removeImage_def some_found)
  then show ?thesis by (simp add: removeFound_eq[OF im(1) ne] Let_def)
qed

text \<open>
  C5, as amended. From a state with the index in bounds (every state of a run is one:
  \<open>receiverRun_post\<close>), \<open>removeImage\<close> removes the first
  image whose id is the given one and returns \<open>true\<close>. The index is decremented by one
  when the removed image was before the current one. When the removed image was the
  current one, the index is decremented and \<open>showNextImage\<close> runs at once, on the state
  with the image removed and the index decremented, and what it returns is the state
  after \<open>removeImage\<close>; so the index ends where it was, now the position of the following
  image, or at 0 when the removed image was the last of the list. When the removed image
  was after the current one, or two places or more before it, nothing but the list and
  the index changes. When no image has the id, \<open>removeImage\<close> returns \<open>false\<close> and changes
  nothing.
\<close>

theorem removeImage_first_match:
  assumes "indexInBounds (slideshow r)"
  shows "(\<forall>xs im ys.
       images (slideshow r) = xs @ im # ys \<and> (\<forall>x\<in>set xs. image_id x \<noteq> n) \<and> image_id im = n \<longrightarrow>
       (\<exists>r'. removeImage n r = Inr (True, r') \<and>
          images (slideshow r') = xs @ ys \<and>
          currentImageIndex (slideshow r') =
            (if int (length xs) < currentImageIndex (slideshow r)
             then currentImageIndex (slideshow r) - 1
             else if int (length xs) = currentImageIndex (slideshow r)
                     \<and> int (length (xs @ ys)) \<le> currentImageIndex (slideshow r)
             then 0 else currentImageIndex (slideshow r))) \<and>
       (int (length xs) = currentImageIndex (slideshow r) \<longrightarrow>
          (\<exists>r'. showNextImage
                  (r\<lparr>slideshow := (slideshow r)
                       \<lparr>images := xs @ ys,
                        currentImageIndex := currentImageIndex (slideshow r) - 1\<rparr>\<rparr>) = Inr r' \<and>
                removeImage n r = Inr (True, r'))) \<and>
       (currentImageIndex (slideshow r) < int (length xs) \<longrightarrow>
          removeImage n r =
            Inr (True, r\<lparr>slideshow := (slideshow r)\<lparr>images := xs @ ys\<rparr>\<rparr>)) \<and>
       (int (length xs) + 1 < currentImageIndex (slideshow r) \<longrightarrow>
          removeImage n r =
            Inr (True, r\<lparr>slideshow := (slideshow r)
                  \<lparr>images := xs @ ys,
                   currentImageIndex := currentImageIndex (slideshow r) - 1\<rparr>\<rparr>))) \<and>
    ((\<forall>x\<in>set (images (slideshow r)). image_id x \<noteq> n) \<longrightarrow> removeImage n r = Inr (False, r))"
proof (intro conjI allI impI)
  fix xs im ys
  assume a: "images (slideshow r) = xs @ im # ys \<and> (\<forall>x\<in>set xs. image_id x \<noteq> n) \<and> image_id im = n"
  then have 1: "images (slideshow r) = xs @ im # ys" and 2: "\<forall>x\<in>set xs. image_id x \<noteq> n"
    and 3: "image_id im = n" by simp_all
  from removeImage_found[OF 1 2 3 assms] obtain r' where r': "removeImage n r = Inr (True, r')"
     "slideshow r' = (slideshow r)\<lparr>images := xs @ ys, currentImageIndex :=
        (if int (length xs) < currentImageIndex (slideshow r)
         then currentImageIndex (slideshow r) - 1
         else if int (length xs) = currentImageIndex (slideshow r)
                 \<and> currentImageIndex (slideshow r) \<ge> int (length (xs @ ys))
         then 0 else currentImageIndex (slideshow r))\<rparr>" by blast
  show "\<exists>r'. removeImage n r = Inr (True, r') \<and>
          images (slideshow r') = xs @ ys \<and>
          currentImageIndex (slideshow r') =
            (if int (length xs) < currentImageIndex (slideshow r)
             then currentImageIndex (slideshow r) - 1
             else if int (length xs) = currentImageIndex (slideshow r)
                     \<and> int (length (xs @ ys)) \<le> currentImageIndex (slideshow r)
             then 0 else currentImageIndex (slideshow r))"
    using r'(1) unfolding r'(2) by (intro exI[of _ r']) (simp add: r'(2))
  {
    assume k: "int (length xs) = currentImageIndex (slideshow r)"
    let ?r0 = "r\<lparr>slideshow := (slideshow r)
                 \<lparr>images := xs @ ys, currentImageIndex := currentImageIndex (slideshow r) - 1\<rparr>\<rparr>"
    have "- 1 \<le> currentImageIndex (slideshow ?r0)" using assms by (simp add: indexInBounds_def)
    then obtain r0' where s: "showNextImage ?r0 = Inr r0'" using showNextImage_post[of ?r0] by blast
    have "removeImage n r = Inr (True, r0')"
      using k s by (simp add: removeImage_shape[OF 1 2 3] Let_def)
    then show "\<exists>r'. showNextImage ?r0 = Inr r' \<and> removeImage n r = Inr (True, r')"
      using s by blast
  }
  {
    assume "currentImageIndex (slideshow r) < int (length xs)"
    then show "removeImage n r = Inr (True, r\<lparr>slideshow := (slideshow r)\<lparr>images := xs @ ys\<rparr>\<rparr>)"
      by (simp add: removeImage_shape[OF 1 2 3] Let_def)
  }
  {
    assume "int (length xs) + 1 < currentImageIndex (slideshow r)"
    then show "removeImage n r =
            Inr (True, r\<lparr>slideshow := (slideshow r)
                  \<lparr>images := xs @ ys,
                   currentImageIndex := currentImageIndex (slideshow r) - 1\<rparr>\<rparr>)"
      by (simp add: removeImage_shape[OF 1 2 3] Let_def)
  }
next
  assume "\<forall>x\<in>set (images (slideshow r)). image_id x \<noteq> n"
  then show "removeImage n r = Inr (False, r)" by (rule removeImage_not_found)
qed

text \<open>
  C5 as stated fails where the removed image is the current one: the first of two images
  is shown and removed, and the index is 0 afterwards, not \<open>-1\<close>.
\<close>

theorem removeImage_current_counterexample:
  "images (slideshow showingA) = [imageA, imageB] \<and> image_id imageA = 0 \<and>
   currentImageIndex (slideshow showingA) = 0 \<and>
   removeImage 0 showingA = Inr (True, afterRemovingA) \<and>
   images (slideshow afterRemovingA) = [imageB] \<and>
   currentImageIndex (slideshow afterRemovingA) = 0 \<and>
   currentImageIndex (slideshow afterRemovingA) \<noteq> currentImageIndex (slideshow showingA) - 1"
  by (simp add: removeImage_def removeFound_def showNextImage_def preloadNextImage_def
      setTimeout_def clearTimeout_def element_def splice1_def showingA_def afterRemovingA_def
      imageA_def imageB_def Let_def)

theorem removeImage_first_match_witness:
  "indexInBounds (slideshow showingA) \<and>
   images (slideshow showingA) = [imageA] @ imageB # [] \<and>
   image_id imageA \<noteq> 1 \<and> image_id imageB = 1 \<and>
   image_id imageA \<noteq> 7 \<and> image_id imageB \<noteq> 7 \<and>
   (\<exists>r'. removeImage 1 showingA = Inr (True, r') \<and> images (slideshow r') = [imageA] \<and>
      currentImageIndex (slideshow r') = 0) \<and>
   removeImage 7 showingA = Inr (False, showingA) \<and>
   images (slideshow showingA) = [] @ imageA # [imageB] \<and> image_id imageA = 0 \<and>
   int (length ([] :: image list)) = currentImageIndex (slideshow showingA) \<and>
   (\<exists>r'. showNextImage
           (showingA\<lparr>slideshow := (slideshow showingA)
                       \<lparr>images := [] @ [imageB],
                        currentImageIndex := currentImageIndex (slideshow showingA) - 1\<rparr>\<rparr>)
           = Inr r' \<and>
         removeImage 0 showingA = Inr (True, r'))"
proof -
  have h: "indexInBounds (slideshow showingA)"
    by (simp add: showingA_def indexInBounds_def)
  have i: "images (slideshow showingA) = [imageA] @ imageB # []"
    "\<forall>x\<in>set [imageA]. image_id x \<noteq> 1" "image_id imageB = 1"
    "\<forall>x\<in>set (images (slideshow showingA)). image_id x \<noteq> 7"
    "currentImageIndex (slideshow showingA) = 0"
    by (simp_all add: showingA_def imageA_def imageB_def)
  from removeImage_first_match[OF h, of 1] i(1,2,3)
  have "\<exists>r'. removeImage 1 showingA = Inr (True, r') \<and>
          images (slideshow r') = [imageA] @ [] \<and>
          currentImageIndex (slideshow r') =
            (if int (length [imageA]) < currentImageIndex (slideshow showingA)
             then currentImageIndex (slideshow showingA) - 1
             else if int (length [imageA]) = currentImageIndex (slideshow showingA)
                     \<and> int (length ([imageA] @ [])) \<le> currentImageIndex (slideshow showingA)
             then 0 else currentImageIndex (slideshow showingA))"
    by blast
  then have a: "\<exists>r'. removeImage 1 showingA = Inr (True, r') \<and> images (slideshow r') = [imageA] \<and>
      currentImageIndex (slideshow r') = 0"
    by (simp add: i(5))
  from removeImage_first_match[OF h, of 7] i(4)
  have b: "removeImage 7 showingA = Inr (False, showingA)" by blast
  have j: "image_id imageA \<noteq> 1" "image_id imageA \<noteq> 7" "image_id imageB \<noteq> 7"
    by (simp_all add: imageA_def imageB_def)
  have k: "images (slideshow showingA) = [] @ imageA # [imageB]"
    "\<forall>x\<in>set ([] :: image list). image_id x \<noteq> 0" "image_id imageA = 0"
    "int (length ([] :: image list)) = currentImageIndex (slideshow showingA)"
    by (simp_all add: showingA_def imageA_def)
  from removeImage_first_match[OF h, of 0] k
  have c: "\<exists>r'. showNextImage
           (showingA\<lparr>slideshow := (slideshow showingA)
                       \<lparr>images := [] @ [imageB],
                        currentImageIndex := currentImageIndex (slideshow showingA) - 1\<rparr>\<rparr>)
           = Inr r' \<and>
         removeImage 0 showingA = Inr (True, r')"
    by blast
  show ?thesis using h i(1,3) j a b k(1,3,4) c by blast
qed

text \<open>
  C9. Whenever \<open>showNextImage\<close> shows an image (the index it is entered with is at least
  \<open>-1\<close> at every call in the script: \<open>-1\<close> when \<open>changeDelay\<close> or \<open>removeImage\<close> call it with
  the first image current) and the list holds more than one image, it creates one \<open>Image\<close>
  for preloading, with the url of the image that follows the shown one in cyclic order;
  with at most one image neither \<open>showNextImage\<close> nor \<open>preloadNextImage\<close> preloads
  anything. From a state with the index in bounds, \<open>addImage\<close> preloads exactly when
  \<open>currentImageIndex + 2\<close> equals the new length of the list, and then it is the added
  image, at the index that \<open>showNextImage\<close> will move to, that is preloaded.
\<close>

theorem preloading:
  "(- 1 \<le> currentImageIndex (slideshow r) \<and> 1 < length (images (slideshow r)) \<longrightarrow>
       (\<exists>r'. showNextImage r = Inr r' \<and>
          preloaded r' = preloaded r @
            [url (images (slideshow r') !
               nat ((currentImageIndex (slideshow r') + 1) mod int (length (images (slideshow r')))))])) \<and>
   (- 1 \<le> currentImageIndex (slideshow r) \<and> length (images (slideshow r)) \<le> 1 \<longrightarrow>
       (\<exists>r'. showNextImage r = Inr r' \<and> preloaded r' = preloaded r)) \<and>
   (length (images (slideshow r)) \<le> 1 \<longrightarrow> preloadNextImage r = Inr r) \<and>
   (indexInBounds (slideshow r) \<longrightarrow>
      (\<exists>r'. addImage p r = Inr r' \<and>
         preloaded r' = preloaded r @
           (if currentImageIndex (slideshow r) + 2 = int (length (images (slideshow r'))) then [url p]
            else []) \<and>
         (currentImageIndex (slideshow r) + 2 = int (length (images (slideshow r'))) \<longrightarrow>
            nextIndex (slideshow r') = int (length (images (slideshow r))) \<and>
            url (images (slideshow r') ! length (images (slideshow r))) = url p)))"
proof (intro conjI impI)
  assume "- 1 \<le> currentImageIndex (slideshow r) \<and> 1 < length (images (slideshow r))"
  then have ge: "- 1 \<le> currentImageIndex (slideshow r)"
    and l: "1 < length (images (slideshow r))" by simp_all
  from showNextImage_post[OF ge] obtain r' where r': "showNextImage r = Inr r'"
    "slideshow r' = (slideshow r)\<lparr>currentImageIndex := nextIndex (slideshow r)\<rparr>"
    "preloaded r' = preloaded r @
       (if length (images (slideshow r)) > 1
        then [url (images (slideshow r) !
                nat ((nextIndex (slideshow r) + 1) mod int (length (images (slideshow r)))))]
        else [])" by blast
  show "\<exists>r'. showNextImage r = Inr r' \<and>
          preloaded r' = preloaded r @
            [url (images (slideshow r') !
               nat ((currentImageIndex (slideshow r') + 1) mod int (length (images (slideshow r')))))]"
    using r' l by simp
next
  assume "- 1 \<le> currentImageIndex (slideshow r) \<and> length (images (slideshow r)) \<le> 1"
  then have ge: "- 1 \<le> currentImageIndex (slideshow r)"
    and l: "length (images (slideshow r)) \<le> 1" by simp_all
  from showNextImage_post[OF ge] obtain r' where r': "showNextImage r = Inr r'"
    "preloaded r' = preloaded r @
       (if length (images (slideshow r)) > 1
        then [url (images (slideshow r) !
                nat ((nextIndex (slideshow r) + 1) mod int (length (images (slideshow r)))))]
        else [])" by blast
  show "\<exists>r'. showNextImage r = Inr r' \<and> preloaded r' = preloaded r" using r' l by simp
next
  assume "length (images (slideshow r)) \<le> 1"
  then show "preloadNextImage r = Inr r" by (simp add: preloadNextImage_def Let_def)
next
  assume b: "indexInBounds (slideshow r)"
  from addImage_post[OF b, of p] obtain r2 where r2: "addImage p r = Inr r2"
    "slideshow r2 = (slideshow r)\<lparr>images := images (slideshow r) @
        [\<lparr>url = url p, thumbnail = thumbnail p, image_id = imageSequence r\<rparr>]\<rparr>"
    "preloaded r2 = preloaded r @
       (if currentImageIndex (slideshow r) + 2 = int (length (images (slideshow r))) + 1
        then [url p] else [])" by blast
  show "\<exists>r'. addImage p r = Inr r' \<and>
       preloaded r' = preloaded r @
         (if currentImageIndex (slideshow r) + 2 = int (length (images (slideshow r'))) then [url p]
          else []) \<and>
       (currentImageIndex (slideshow r) + 2 = int (length (images (slideshow r'))) \<longrightarrow>
          nextIndex (slideshow r') = int (length (images (slideshow r))) \<and>
          url (images (slideshow r') ! length (images (slideshow r))) = url p)"
    using r2(1,3) by (intro exI[of _ r2]) (auto simp: r2(2) nextIndex_def)
qed

theorem preloading_witness:
  "- 1 \<le> currentImageIndex (slideshow enteringShow) \<and>
   1 < length (images (slideshow enteringShow)) \<and>
   currentImageIndex (slideshow enteringShow) = - 1 \<and>
   - 1 \<le> currentImageIndex (slideshow initial) \<and>
   indexInBounds (slideshow initial) \<and> length (images (slideshow initial)) \<le> 1 \<and>
   (\<exists>r'. showNextImage enteringShow = Inr r' \<and> preloaded r' = [''b.jpg'', ''b.jpg'']) \<and>
   (\<exists>r'. showNextImage initial = Inr r' \<and> preloaded r' = []) \<and>
   (\<exists>r'. addImage photoA initial = Inr r' \<and> preloaded r' = [])"
proof -
  have h: "- 1 \<le> currentImageIndex (slideshow enteringShow)"
    "1 < length (images (slideshow enteringShow))"
    "currentImageIndex (slideshow enteringShow) = - 1"
    "- 1 \<le> currentImageIndex (slideshow initial)"
    "indexInBounds (slideshow initial)" "length (images (slideshow initial)) \<le> 1"
    by (simp_all add: enteringShow_def showingA_def initial_def indexInBounds_def)
  from preloading[of enteringShow photoA] h(1,2)
  obtain r' where r': "showNextImage enteringShow = Inr r'"
    "preloaded r' = preloaded enteringShow @
            [url (images (slideshow r') !
               nat ((currentImageIndex (slideshow r') + 1) mod int (length (images (slideshow r')))))]"
    by blast
  have "\<exists>x. showNextImage enteringShow = Inr x \<and> currentImageIndex (slideshow x) = 0 \<and>
      images (slideshow x) = [imageA, imageB] \<and> preloaded enteringShow = [''b.jpg'']"
    by (simp add: showNextImage_def preloadNextImage_def setTimeout_def clearTimeout_def
        element_def enteringShow_def showingA_def imageA_def imageB_def Let_def)
  then have "currentImageIndex (slideshow r') = 0" "images (slideshow r') = [imageA, imageB]"
    "preloaded enteringShow = [''b.jpg'']"
    using r'(1) by auto
  then have "preloaded r' = [''b.jpg'', ''b.jpg'']"
    using r'(2) by (simp add: imageB_def)
  then have a: "\<exists>r'. showNextImage enteringShow = Inr r' \<and> preloaded r' = [''b.jpg'', ''b.jpg'']"
    using r'(1) by blast
  from preloading[of initial photoA] h(4,5,6)
  have b: "\<exists>r'. showNextImage initial = Inr r' \<and> preloaded r' = preloaded initial"
    and c: "\<exists>r'. addImage photoA initial = Inr r' \<and>
       preloaded r' = preloaded initial @
         (if currentImageIndex (slideshow initial) + 2 = int (length (images (slideshow r'))) then [url photoA]
          else [])"
    by (blast+)
  from c obtain r2 where r2: "addImage photoA initial = Inr r2"
     "preloaded r2 = preloaded initial @
         (if currentImageIndex (slideshow initial) + 2 = int (length (images (slideshow r2))) then [url photoA]
          else [])" by blast
  have "images (slideshow r2) = [imageA]"
    using r2(1)
    by (auto simp add: addImage_def getImageId_def showNextImage_def preloadNextImage_def setTimeout_def
        clearTimeout_def element_def initial_def photoA_def imageA_def Let_def)
  then have c': "\<exists>r'. addImage photoA initial = Inr r' \<and> preloaded r' = []"
    using r2 by (auto simp: initial_def)
  have "preloaded initial = []" by (simp add: initial_def)
  then show ?thesis using h a b c' by simp
qed

subsection \<open>Messages, broadcasts and runs\<close>

lemma fold_sendMessage:
  "posted (fold (\<lambda>connection. sendMessage S connection m) cs r) =
     posted r @ map (\<lambda>connection. (messageSource connection, messageOrigin connection,
         case m of MSlideshow \<Rightarrow> S (slideshow r) | MString s \<Rightarrow> s)) cs \<and>
   slideshow (fold (\<lambda>connection. sendMessage S connection m) cs r) = slideshow r \<and>
   timeouts (fold (\<lambda>connection. sendMessage S connection m) cs r) = timeouts r \<and>
   nextImageTimeout (fold (\<lambda>connection. sendMessage S connection m) cs r) = nextImageTimeout r \<and>
   lastTimerId (fold (\<lambda>connection. sendMessage S connection m) cs r) = lastTimerId r \<and>
   pendingBroadcasts (fold (\<lambda>connection. sendMessage S connection m) cs r) = pendingBroadcasts r"
proof (induction cs arbitrary: r)
  case Nil
  then show ?case by simp
next
  case (Cons c cs)
  define r1 where "r1 = sendMessage S c m r"
  have r1: "posted r1 = posted r @ [(messageSource c, messageOrigin c,
         case m of MSlideshow \<Rightarrow> S (slideshow r) | MString s \<Rightarrow> s)]"
    "slideshow r1 = slideshow r" "timeouts r1 = timeouts r"
    "nextImageTimeout r1 = nextImageTimeout r" "lastTimerId r1 = lastTimerId r"
    "pendingBroadcasts r1 = pendingBroadcasts r"
    by (simp_all add: r1_def sendMessage_def send_def Let_def)
  show ?case
    unfolding fold_Cons comp_apply r1_def[symmetric]
    using Cons.IH[of r1] unfolding r1 by simp
qed

lemma broadcastCallback_post:
  "posted (broadcastCallback S MSlideshow list r) = posted r @ postsToAll list (S (slideshow r)) \<and>
   slideshow (broadcastCallback S m list r) = slideshow r \<and>
   timeouts (broadcastCallback S m list r) = timeouts r \<and>
   nextImageTimeout (broadcastCallback S m list r) = nextImageTimeout r \<and>
   lastTimerId (broadcastCallback S m list r) = lastTimerId r \<and>
   pendingBroadcasts (broadcastCallback S m list r) = pendingBroadcasts r"
  by (simp add: broadcastCallback_def fold_sendMessage postsToAll_def)

lemma fold_broadcastCallback:
  "set ms \<subseteq> {MSlideshow} \<Longrightarrow>
   posted (fold (\<lambda>m. broadcastCallback S m list) ms r) =
     posted r @ concat (replicate (length ms) (postsToAll list (S (slideshow r))))"
  "slideshow (fold (\<lambda>m. broadcastCallback S m list) ms r) = slideshow r"
  "timeouts (fold (\<lambda>m. broadcastCallback S m list) ms r) = timeouts r"
  "nextImageTimeout (fold (\<lambda>m. broadcastCallback S m list) ms r) = nextImageTimeout r"
  "lastTimerId (fold (\<lambda>m. broadcastCallback S m list) ms r) = lastTimerId r"
  "pendingBroadcasts (fold (\<lambda>m. broadcastCallback S m list) ms r) = pendingBroadcasts r"
proof (induction ms arbitrary: r)
  case Nil
  {
    case 1 then show ?case by simp
  next
    case 2 then show ?case by simp
  next
    case 3 then show ?case by simp
  next
    case 4 then show ?case by simp
  next
    case 5 then show ?case by simp
  next
    case 6 then show ?case by simp
  }
next
  case (Cons m ms)
  {
    case 1
    then have m: "m = MSlideshow" and ms: "set ms \<subseteq> {MSlideshow}" by auto
    show ?case
      unfolding fold_Cons comp_apply m
      by (simp add: Cons.IH(1)[OF ms] Cons.IH(2) broadcastCallback_post)
  next
    case 2 show ?case by (simp add: Cons.IH(2) broadcastCallback_post)
  next
    case 3 show ?case by (simp add: Cons.IH(3) broadcastCallback_post)
  next
    case 4 show ?case by (simp add: Cons.IH(4) broadcastCallback_post)
  next
    case 5 show ?case by (simp add: Cons.IH(5) broadcastCallback_post)
  next
    case 6 show ?case by (simp add: Cons.IH(6) broadcastCallback_post)
  }
qed

lemma runCallbacks_post:
  "slideshow (runCallbacks S list r) = slideshow r"
  "timeouts (runCallbacks S list r) = timeouts r"
  "nextImageTimeout (runCallbacks S list r) = nextImageTimeout r"
  "lastTimerId (runCallbacks S list r) = lastTimerId r"
  "pendingBroadcasts (runCallbacks S list r) = []"
  "set (pendingBroadcasts r) \<subseteq> {MSlideshow} \<Longrightarrow>
   posted (runCallbacks S list r) =
     posted r @ concat (replicate (length (pendingBroadcasts r)) (postsToAll list (S (slideshow r))))"
  by (simp_all add: runCallbacks_def fold_broadcastCallback)

lemma switchAction_post:
  assumes "indexInBounds (slideshow r)" "switchAction m r = Inr r'"
  shows "indexInBounds (slideshow r') \<and> (timerInv r \<longrightarrow> timerInv r') \<and>
    posted r' = posted r \<and> pendingBroadcasts r' = pendingBroadcasts r"
proof -
  consider (add) p where "action m = ADD_IMAGE" "data m = PImage p"
    | (remove) n where "action m = REMOVE_IMAGE" "data m = PNumber n"
    | (delay) d where "action m = CHANGE_DELAY" "data m = PNumber d"
    | (anim) a where "action m = CHANGE_ANIMATION" "data m = PString a"
    | (other) "action m \<notin> {ADD_IMAGE, REMOVE_IMAGE, CHANGE_DELAY, CHANGE_ANIMATION}"
    using assms(2)
    by (cases "data m")
       (auto simp: switchAction_def split: if_splits)
  then show ?thesis
  proof cases
    case add
    from addImage_post[OF assms(1), of p] obtain r1 where r1: "addImage p r = Inr r1"
      "slideshow r1 = (slideshow r)\<lparr>images := images (slideshow r) @
        [\<lparr>url = url p, thumbnail = thumbnail p, image_id = imageSequence r\<rparr>]\<rparr>"
      "timerInv r \<longrightarrow> timerInv r1" "posted r1 = posted r"
      "pendingBroadcasts r1 = pendingBroadcasts r" by blast
    have "r' = r1" using assms(2) add r1(1) by (simp add: switchAction_def)
    moreover have "indexInBounds (slideshow r1)"
      unfolding r1(2) using assms(1) by (auto simp: indexInBounds_def split: if_splits)
    ultimately show ?thesis using r1 by simp
  next
    case remove
    from removeImage_post[OF assms(1), of n] obtain b r1 where r1: "removeImage n r = Inr (b, r1)"
      "indexInBounds (slideshow r1)" "timerInv r \<longrightarrow> timerInv r1" "posted r1 = posted r"
      "pendingBroadcasts r1 = pendingBroadcasts r" by blast
    have "r' = r1" using assms(2) remove r1(1)
      by (simp add: switchAction_def ADD_IMAGE_def REMOVE_IMAGE_def)
    then show ?thesis using r1 by simp
  next
    case delay
    from changeDelay_post[OF assms(1), of d] obtain r1 where r1: "changeDelay d r = Inr r1"
      "slideshow r1 = (slideshow r)\<lparr>delay := d\<rparr>"
      "timerInv r \<longrightarrow> timerInv r1" "posted r1 = posted r"
      "pendingBroadcasts r1 = pendingBroadcasts r" by blast
    have "r' = r1" using assms(2) delay r1(1)
      by (simp add: switchAction_def ADD_IMAGE_def REMOVE_IMAGE_def CHANGE_DELAY_def)
    moreover have "indexInBounds (slideshow r1)"
      unfolding r1(2) using assms(1) by (simp add: indexInBounds_def)
    ultimately show ?thesis using r1 by simp
  next
    case anim
    have "r' = changeAnimation a r" using assms(2) anim
      by (simp add: switchAction_def ADD_IMAGE_def REMOVE_IMAGE_def CHANGE_DELAY_def
          CHANGE_ANIMATION_def)
    then show ?thesis using assms(1)
      by (simp add: changeAnimation_def indexInBounds_def timerInv_def)
  next
    case other
    then have "r' = r" using assms(2) by (simp add: switchAction_def)
    then show ?thesis using assms(1) by simp
  qed
qed


lemma timeoutFires_post:
  assumes "indexInBounds (slideshow r)" "timerInv r" "timeoutFires t r = Inr r'"
  shows "indexInBounds (slideshow r') \<and> timerInv r'"
proof (cases "t \<in> fst ` set (timeouts r)")
  case True
  let ?r0 = "clearTimeout t r"
  have s: "slideshow ?r0 = slideshow r" by (simp add: clearTimeout_def)
  have t: "timerInv ?r0" using assms(2)
    by (cases "timeouts r") (auto simp: timerInv_def clearTimeout_def)
  have ge: "- 1 \<le> currentImageIndex (slideshow ?r0)"
    using assms(1) by (simp add: s indexInBounds_def)
  from showNextImage_post[OF ge] obtain r1 where r1: "showNextImage ?r0 = Inr r1"
    "slideshow r1 = (slideshow ?r0)\<lparr>currentImageIndex := nextIndex (slideshow ?r0)\<rparr>"
    "timerInv ?r0 \<longrightarrow> timerInv r1" by blast
  have "r' = r1" using assms(3) True r1(1) by (simp add: timeoutFires_def)
  moreover have "indexInBounds (slideshow r1)" unfolding r1(2) using ge by (rule nextIndex_bounds)
  ultimately show ?thesis using r1(3) t by simp
next
  case False
  then show ?thesis using assms by (simp add: timeoutFires_def)
qed

lemma receiverStep_post:
  assumes "indexInBounds (slideshow r)" "timerInv r" "receiverStep P S ev r = Inr r'"
  shows "indexInBounds (slideshow r') \<and> timerInv r'"
proof (cases ev)
  case (MessageArrives d)
  then obtain m r1 where m: "switchAction m r = Inr r1" "r' = broadcastMessage MSlideshow r1"
    using assms(3)
    by (auto simp: onmessageHandler_def split: option.splits sum.splits parsed.splits)
  from switchAction_post[OF assms(1) m(1)] assms(2)
  have r1: "indexInBounds (slideshow r1)" "timerInv r1" by simp_all
  have "timerInv r' = timerInv r1" "slideshow r' = slideshow r1"
    by (simp_all add: m(2) broadcastMessage_def timerInv_def)
  then show ?thesis using r1 by simp
next
  case (TimeoutExpires t)
  then have "timeoutFires t r = Inr r'" using assms(3) by simp
  then show ?thesis using timeoutFires_post[OF assms(1,2)] by blast
next
  case AnimationEnds
  then have "r' = animationEnd r" using assms(3) by simp
  then show ?thesis using assms(1,2) by (simp add: animationEnd_def timerInv_def)
next
  case (TaskEnds list)
  then have "r' = runCallbacks S list r" using assms(3) by simp
  then show ?thesis using assms(1,2) by (simp add: runCallbacks_post timerInv_def)
qed

lemma receiverRun_post:
  "indexInBounds (slideshow r) \<Longrightarrow> timerInv r \<Longrightarrow> receiverRun P S evs r = Inr r' \<Longrightarrow>
   indexInBounds (slideshow r') \<and> timerInv r'"
proof (induction evs arbitrary: r)
  case Nil
  then show ?case by simp
next
  case (Cons ev evs)
  show ?case
  proof (cases "receiverStep P S ev r")
    case (Inl e)
    then have "receiverRun P S evs r = Inr r'"
      using Cons.prems(3) by (cases e) simp_all
    then show ?thesis using Cons.IH Cons.prems(1,2) by blast
  next
    case (Inr r1)
    then have "receiverRun P S evs r1 = Inr r'" using Cons.prems(3) by simp
    moreover have "indexInBounds (slideshow r1) \<and> timerInv r1"
      using receiverStep_post[OF Cons.prems(1,2) Inr] .
    ultimately show ?thesis using Cons.IH by blast
  qed
qed

lemma initial_good: "indexInBounds (slideshow initial) \<and> timerInv initial"
  by (simp add: initial_def indexInBounds_def timerInv_def)

text \<open>
  C6. At most one image-cycling timeout is pending at any time: after any run of the
  receiver from its initial state (messages, expiring timeouts, animation ends, ends of
  tasks) the table of pending timeouts holds at most one entry. Each invocation of
  \<open>showNextImage\<close> clears the timeout that was pending before it schedules a new one: after
  it the only pending timeout is the new one, whose id was not pending before, and none is
  pending when the image list is empty.
\<close>

theorem single_timeout:
  "(receiverRun JSON_parse JSON_stringify evs initial = Inr r \<longrightarrow> length (timeouts r) \<le> 1) \<and>
   (timerInv r0 \<and> - 1 \<le> currentImageIndex (slideshow r0) \<longrightarrow>
      (\<exists>r'. showNextImage r0 = Inr r' \<and>
         timeouts r' = (if images (slideshow r0) = [] then []
                        else [(lastTimerId r0 + 1, delay (slideshow r0))]) \<and>
         (images (slideshow r0) \<noteq> [] \<longrightarrow> nextImageTimeout r' = Some (lastTimerId r0 + 1)) \<and>
         lastTimerId r0 + 1 \<notin> fst ` set (timeouts r0)))"
proof (intro conjI impI)
  assume "receiverRun JSON_parse JSON_stringify evs initial = Inr r"
  then have "timerInv r" using receiverRun_post initial_good by blast
  then show "length (timeouts r) \<le> 1" by (auto simp: timerInv_def)
next
  assume a: "timerInv r0 \<and> - 1 \<le> currentImageIndex (slideshow r0)"
  then have t: "timerInv r0" and ge: "- 1 \<le> currentImageIndex (slideshow r0)" by simp_all
  have f: "lastTimerId r0 + 1 \<notin> fst ` set (timeouts r0)"
    using t by (cases "timeouts r0") (auto simp: timerInv_def)
  show "\<exists>r'. showNextImage r0 = Inr r' \<and>
         timeouts r' = (if images (slideshow r0) = [] then []
                        else [(lastTimerId r0 + 1, delay (slideshow r0))]) \<and>
         (images (slideshow r0) \<noteq> [] \<longrightarrow> nextImageTimeout r' = Some (lastTimerId r0 + 1)) \<and>
         lastTimerId r0 + 1 \<notin> fst ` set (timeouts r0)"
  proof (cases "images (slideshow r0) = []")
    case True
    show ?thesis unfolding showNextImage_empty[OF True] using True f
      by (simp add: cleared_timerInv[OF t])
  next
    case False
    show ?thesis unfolding showNextImage_nonempty[OF False ge] using False f
      by (simp add: cleared_timerInv[OF t])
  qed
qed

theorem single_timeout_witness:
  "(\<exists>r. receiverRun exampleParse exampleStringify
          [MessageArrives ''add A'', TaskEnds twoControllers, MessageArrives ''not JSON'',
           TimeoutExpires 1, MessageArrives ''remove 0''] initial = Inr r \<and>
        length (timeouts r) \<le> 1) \<and>
   timerInv showingA \<and> - 1 \<le> currentImageIndex (slideshow showingA) \<and>
   (\<exists>r'. showNextImage showingA = Inr r' \<and> timeouts r' = [(2, 5000)])"
proof -
  have "\<exists>r. receiverRun exampleParse exampleStringify
          [MessageArrives ''add A'', TaskEnds twoControllers, MessageArrives ''not JSON'',
           TimeoutExpires 1, MessageArrives ''remove 0''] initial = Inr r"
    by (simp add: onmessageHandler_def switchAction_def exampleParse_def addImage_def
        removeImage_def removeFound_def timeoutFires_def runCallbacks_def broadcastCallback_def
        broadcastMessage_def sendMessage_def send_def getImageId_def showNextImage_def
        preloadNextImage_def setTimeout_def clearTimeout_def element_def splice1_def initial_def
        photoA_def twoControllers_def controllerA_def controllerB_def Let_def
        ADD_IMAGE_def REMOVE_IMAGE_def CHANGE_DELAY_def CHANGE_ANIMATION_def)
  then obtain r where r: "receiverRun exampleParse exampleStringify
          [MessageArrives ''add A'', TaskEnds twoControllers, MessageArrives ''not JSON'',
           TimeoutExpires 1, MessageArrives ''remove 0''] initial = Inr r" by blast
  have h: "timerInv showingA" "- 1 \<le> currentImageIndex (slideshow showingA)"
    "images (slideshow showingA) \<noteq> []" "lastTimerId showingA + 1 = 2"
    "delay (slideshow showingA) = 5000"
    by (simp_all add: showingA_def timerInv_def)
  from single_timeout[of exampleParse exampleStringify _ r showingA] r h
  have a: "length (timeouts r) \<le> 1"
    and b: "\<exists>r'. showNextImage showingA = Inr r' \<and>
         timeouts r' = (if images (slideshow showingA) = [] then []
                        else [(lastTimerId showingA + 1, delay (slideshow showingA))])"
    by (blast+)
  from b have "\<exists>r'. showNextImage showingA = Inr r' \<and> timeouts r' = [(2, 5000)]"
    using h by (simp add: numeral_2_eq_2)
  then show ?thesis using r a h by blast
qed







text \<open>
  C2. A received message whose action is none of \<open>addImage\<close>, \<open>removeImage\<close>,
  \<open>changeDelay\<close>, \<open>changeAnimation\<close> leaves the slideshow state as it was: the handler
  only registers the broadcast, and the broadcast does not change the state either.
\<close>

theorem other_actions_keep_slideshow:
  assumes "JSON_parse (event_data e) = Some (Parsed m)"
    "action m \<notin> {ADD_IMAGE, REMOVE_IMAGE, CHANGE_DELAY, CHANGE_ANIMATION}"
  shows "onmessageHandler JSON_parse e r = Inr (broadcastMessage MSlideshow r) \<and>
    slideshow (broadcastMessage MSlideshow r) = slideshow r \<and>
    slideshow (runCallbacks JSON_stringify list (broadcastMessage MSlideshow r)) = slideshow r"
  using assms
  by (simp add: onmessageHandler_def switchAction_def broadcastMessage_def runCallbacks_post)

theorem other_actions_keep_slideshow_witness:
  "exampleParse (event_data \<lparr>event_type = ''message'', event_data = ''ping''\<rparr>)
     = Some (Parsed \<lparr>action = ''ping'', data = PString []\<rparr>) \<and>
   action \<lparr>action = ''ping'', data = PString []\<rparr>
     \<notin> {ADD_IMAGE, REMOVE_IMAGE, CHANGE_DELAY, CHANGE_ANIMATION} \<and>
   onmessageHandler exampleParse \<lparr>event_type = ''message'', event_data = ''ping''\<rparr> showingA
     = Inr (broadcastMessage MSlideshow showingA) \<and>
   slideshow (broadcastMessage MSlideshow showingA) = slideshow showingA"
proof -
  have h: "exampleParse (event_data \<lparr>event_type = ''message'', event_data = ''ping''\<rparr>)
     = Some (Parsed \<lparr>action = ''ping'', data = PString []\<rparr>)"
    "action \<lparr>action = ''ping'', data = PString []\<rparr>
     \<notin> {ADD_IMAGE, REMOVE_IMAGE, CHANGE_DELAY, CHANGE_ANIMATION}"
    by (simp_all add: exampleParse_def ADD_IMAGE_def REMOVE_IMAGE_def CHANGE_DELAY_def
        CHANGE_ANIMATION_def)
  show ?thesis
    using h other_actions_keep_slideshow[where JSON_parse = exampleParse
        and e = "\<lparr>event_type = ''message'', event_data = ''ping''\<rparr>" and r = showingA
        and JSON_stringify = exampleStringify and list = twoControllers, OF h]
    by blast
qed

subsection \<open>The polyfill\<close>

lemma handlerCalls_no_resolve: "Resolve \<notin> set (handlerCalls i cs e)"
  by (induction cs arbitrary: i) (auto split: option.splits)

lemma forEachOnMessage_prefix:
  "fst (forEachOnMessage invoke i cs e s)
     = take (length (fst (forEachOnMessage invoke i cs e s))) (handlerCalls i cs e)"
proof (induction cs arbitrary: i s)
  case Nil
  then show ?case by simp
next
  case (Cons c cs)
  show ?case
  proof (cases "onmessage c")
    case None
    then show ?thesis using Cons.IH[of "Suc i" s] by simp
  next
    case (Some h)
    obtain o1 s1 where i1: "invoke (OnMessage i h e) s = (o1, s1)"
      by (cases "invoke (OnMessage i h e) s")
    show ?thesis
    proof (cases o1)
      case None
      obtain calls1 rest where rec: "forEachOnMessage invoke (Suc i) cs e s1 = (calls1, rest)"
        by (cases "forEachOnMessage invoke (Suc i) cs e s1")
      have "calls1 = take (length calls1) (handlerCalls (Suc i) cs e)"
        using Cons.IH[of "Suc i" s1] rec by simp
      then show ?thesis using Some i1 None rec by simp
    next
      case (Some err)
      then show ?thesis using \<open>onmessage c = Some h\<close> i1 by simp
    qed
  qed
qed

lemma forEachOnMessage_no_resolve: "Resolve \<notin> set (fst (forEachOnMessage invoke i cs e s))"
proof -
  have "set (fst (forEachOnMessage invoke i cs e s)) \<subseteq> set (handlerCalls i cs e)"
    by (subst forEachOnMessage_prefix) (rule set_take_subset)
  then show ?thesis using handlerCalls_no_resolve by blast
qed

lemma polyfillStep_resolve:
  "connectionListResolved (fst (polyfillStep invoke ev p s)) =
     (connectionListResolved p \<or> isNewConnection ev)"
  "(Resolve \<in> set (fst (snd (polyfillStep invoke ev p s)))) =
     (\<not> connectionListResolved p \<and> isNewConnection ev)"
  by (cases ev; auto simp: windowListener_def Let_def forEachOnMessage_no_resolve
        split: option.splits)+

lemma polyfillRun_length: "length (polyfillRun invoke evs p s) = length evs"
  by (induction evs arbitrary: p s) (auto split: prod.splits)

lemma polyfillRun_resolve:
  "i < length evs \<Longrightarrow>
   (Resolve \<in> set (polyfillRun invoke evs p s ! i)) =
     (\<not> connectionListResolved p \<and> isNewConnection (evs ! i) \<and> (\<forall>j<i. \<not> isNewConnection (evs ! j)))"
proof (induction evs arbitrary: p s i)
  case Nil
  then show ?case by simp
next
  case (Cons ev evs)
  obtain p' cs out s' where st: "polyfillStep invoke ev p s = (p', cs, out, s')"
    by (cases "polyfillStep invoke ev p s") auto
  have r: "connectionListResolved p' = (connectionListResolved p \<or> isNewConnection ev)"
    "(Resolve \<in> set cs) = (\<not> connectionListResolved p \<and> isNewConnection ev)"
    using polyfillStep_resolve[of invoke ev p s] st by simp_all
  show ?case
  proof (cases i)
    case 0
    then show ?thesis using st r by simp
  next
    case (Suc k)
    then have k: "k < length evs" using Cons.prems by simp
    have "(Resolve \<in> set (polyfillRun invoke (ev # evs) p s ! i))
        = (Resolve \<in> set (polyfillRun invoke evs p' s' ! k))"
      using st Suc by simp
    also have "\<dots> = (\<not> connectionListResolved p' \<and> isNewConnection (evs ! k)
        \<and> (\<forall>j<k. \<not> isNewConnection (evs ! j)))"
      using Cons.IH[OF k] .
    also have "\<dots> = (\<not> connectionListResolved p \<and> isNewConnection ((ev # evs) ! i)
        \<and> (\<forall>j<i. \<not> isNewConnection ((ev # evs) ! j)))"
      unfolding r(1) Suc by (auto simp: less_Suc_eq_0_disj)
    finally show ?thesis .
  qed
qed

text \<open>
  C7. On a \<open>NEW_CONNECTION\<close> window message the polyfill appends to the connection list a
  new connection whose state is \<open>connected\<close> (id empty, no handlers, origin and source of
  the message). If the promise was not resolved yet the listener resolves it with the
  list; otherwise it calls the list's \<open>onconnectionavailable\<close> handler, when one is set,
  with the new connection. Over any sequence of events from the start, \<open>resolve\<close> is called
  at the \<open>i\<close>-th event exactly when that event is the first \<open>NEW_CONNECTION\<close> message. All
  this holds whatever the handlers of the page do.
\<close>

theorem new_connection:
  "(message_type e = ''NEW_CONNECTION'' \<longrightarrow>
      connections (connectionList (fst (windowListener invoke e p s))) =
        connections (connectionList p) @
          [\<lparr>connection_id = [], state = ''connected'', onconnect = None, onclose = None,
            onterminate = None, onmessage = None,
            messageOrigin = origin e, messageSource = source e\<rparr>] \<and>
      connectionListResolved (fst (windowListener invoke e p s)) \<and>
      fst (snd (windowListener invoke e p s)) =
        (if \<not> connectionListResolved p then [Resolve]
         else case onconnectionavailable (connectionList p) of
                None \<Rightarrow> []
              | Some h \<Rightarrow>
                  [ConnectionAvailable h
                     (last (connections (connectionList (fst (windowListener invoke e p s)))))])) \<and>
   (i < length evs \<longrightarrow>
      (Resolve \<in> set (polyfillRun invoke evs
                        (newPresentationReceiver :: 'h PresentationReceiver) s0 ! i)) =
        (isNewConnection (evs ! i) \<and> (\<forall>j<i. \<not> isNewConnection (evs ! j))))"
proof (intro conjI impI)
  assume i: "i < length evs"
  show "(Resolve \<in> set (polyfillRun invoke evs
                        (newPresentationReceiver :: 'h PresentationReceiver) s0 ! i)) =
        (isNewConnection (evs ! i) \<and> (\<forall>j<i. \<not> isNewConnection (evs ! j)))"
    unfolding polyfillRun_resolve[OF i] by (simp add: newPresentationReceiver_def)
qed (auto simp: windowListener_def Let_def split: option.splits)

theorem new_connection_witness:
  "message_type newConnectionFromA = ''NEW_CONNECTION'' \<and>
   (1::nat) < length [Window appMessageFromB, Window newConnectionFromA,
                      SetOnConnectionAvailable (Some OnmessageFunction), Window newConnectionFromA] \<and>
   windowListener (receiverPage exampleParse) newConnectionFromA
       (newPresentationReceiver :: handler PresentationReceiver) initial =
     (\<lparr>connectionList = \<lparr>connections = [freshConnection], onconnectionavailable = None\<rparr>,
       connectionListResolved = True\<rparr>, [Resolve], None, initial) \<and>
   Resolve \<in> set (polyfillRun (receiverPage exampleParse)
                    [Window appMessageFromB, Window newConnectionFromA,
                     SetOnConnectionAvailable (Some OnmessageFunction), Window newConnectionFromA]
                    (newPresentationReceiver :: handler PresentationReceiver) initial ! 1)"
proof -
  let ?evs = "[Window appMessageFromB, Window newConnectionFromA,
               SetOnConnectionAvailable (Some OnmessageFunction), Window newConnectionFromA]"
  let ?p = "newPresentationReceiver :: handler PresentationReceiver"
  have h: "message_type newConnectionFromA = ''NEW_CONNECTION''" "(1::nat) < length ?evs"
    by (simp_all add: newConnectionFromA_def)
  have n: "isNewConnection (?evs ! 1) \<and> (\<forall>j<1. \<not> isNewConnection (?evs ! j))"
    by (simp add: newConnectionFromA_def appMessageFromB_def)
  from new_connection[of newConnectionFromA "receiverPage exampleParse" ?p initial 1 ?evs initial]
    h n
  have b: "Resolve \<in> set (polyfillRun (receiverPage exampleParse) ?evs ?p initial ! 1)"
    by blast
  have "windowListener (receiverPage exampleParse) newConnectionFromA ?p initial =
     (\<lparr>connectionList = \<lparr>connections = [freshConnection], onconnectionavailable = None\<rparr>,
       connectionListResolved = True\<rparr>, [Resolve], None, initial)"
    by (simp add: windowListener_def newPresentationReceiver_def newConnectionFromA_def
        freshConnection_def Let_def)
  then show ?thesis using h b by blast
qed

lemma handlerCalls_calls:
  "(OnMessage i h ev' \<in> set (handlerCalls k cs ev)) =
     (k \<le> i \<and> i - k < length cs \<and> onmessage (cs ! (i - k)) = Some h \<and> ev' = ev)"
proof (induction cs arbitrary: k)
  case Nil
  then show ?case by simp
next
  case (Cons c cs)
  have s: "(Suc k \<le> i \<and> i - Suc k < length cs \<and> onmessage (cs ! (i - Suc k)) = Some h \<and> ev' = ev)
     = (k < i \<and> i - k < length (c # cs) \<and> onmessage ((c # cs) ! (i - k)) = Some h \<and> ev' = ev)"
  proof (cases "i - k")
    case 0
    then show ?thesis by auto
  next
    case (Suc n)
    then have "i - Suc k = n" "k < i" "Suc k \<le> i" by simp_all
    then show ?thesis using Suc by simp
  qed
  show ?case
  proof (cases "onmessage c")
    case None
    then show ?thesis using Cons.IH[of "Suc k"] s by (cases "i = k") auto
  next
    case (Some g)
    then show ?thesis using Cons.IH[of "Suc k"] s by (cases "i = k") auto
  qed
qed

lemma handlerCalls_length:
  "length (handlerCalls k cs ev) = length (filter (\<lambda>c. onmessage c \<noteq> None) cs)"
  by (induction cs arbitrary: k) (auto split: option.splits)

text \<open>
  What the \<open>forEach\<close> does, call by call: the calls made are an initial part of the calls
  for all connections with a handler; every call made but the last returns; the last one
  returns or raises the error that ends the loop; and when no error ends the loop, all
  the calls are made.
\<close>

lemma forEachOnMessage_spec:
  assumes "forEachOnMessage invoke i cs ev s = (calls, out, s')"
  shows "calls = take (length calls) (handlerCalls i cs ev) \<and>
    (\<forall>j<length calls. fst (invoke (calls ! j) (afterCalls invoke (take j calls) s))
        = (if Suc j = length calls then out else None)) \<and>
    (out = None \<longrightarrow> calls = handlerCalls i cs ev) \<and>
    (calls = [] \<longrightarrow> out = None) \<and>
    s' = afterCalls invoke calls s"
  using assms
proof (induction cs arbitrary: i s calls out s')
  case Nil
  then show ?case by simp
next
  case (Cons c cs)
  show ?case
  proof (cases "onmessage c")
    case None
    then have "forEachOnMessage invoke (Suc i) cs ev s = (calls, out, s')"
      using Cons.prems by simp
    from Cons.IH[OF this] show ?thesis using None by simp
  next
    case (Some h)
    let ?c = "OnMessage i h ev"
    obtain o1 s1 where i1: "invoke ?c s = (o1, s1)" by (cases "invoke ?c s")
    show ?thesis
    proof (cases o1)
      case (Some err)
      then have "calls = [?c]" "out = Some err" "s' = s1"
        using Cons.prems \<open>onmessage c = Some h\<close> i1 by simp_all
      then show ?thesis using \<open>onmessage c = Some h\<close> i1 Some by simp
    next
      case None
      obtain calls1 out1 s2 where rec: "forEachOnMessage invoke (Suc i) cs ev s1 = (calls1, out1, s2)"
        by (cases "forEachOnMessage invoke (Suc i) cs ev s1") auto
      have e: "calls = ?c # calls1" "out = out1" "s' = s2"
        using Cons.prems \<open>onmessage c = Some h\<close> i1 None rec by simp_all
      from Cons.IH[OF rec] have ih:
        "calls1 = take (length calls1) (handlerCalls (Suc i) cs ev)"
        "\<forall>j<length calls1. fst (invoke (calls1 ! j) (afterCalls invoke (take j calls1) s1))
            = (if Suc j = length calls1 then out1 else None)"
        "out1 = None \<longrightarrow> calls1 = handlerCalls (Suc i) cs ev"
        "calls1 = [] \<longrightarrow> out1 = None"
        "s2 = afterCalls invoke calls1 s1"
        by simp_all
      have a: "calls = take (length calls) (handlerCalls i (c # cs) ev)"
        using ih(1) e(1) \<open>onmessage c = Some h\<close> by simp
      have b: "\<forall>j<length calls. fst (invoke (calls ! j) (afterCalls invoke (take j calls) s))
          = (if Suc j = length calls then out else None)"
      proof (intro allI impI)
        fix j assume j: "j < length calls"
        show "fst (invoke (calls ! j) (afterCalls invoke (take j calls) s))
          = (if Suc j = length calls then out else None)"
        proof (cases j)
          case 0
          then show ?thesis using e i1 None ih(4) by (cases calls1) simp_all
        next
          case (Suc k)
          then have "k < length calls1" using j e(1) by simp
          then show ?thesis using ih(2) e Suc i1 by simp
        qed
      qed
      have c: "out = None \<longrightarrow> calls = handlerCalls i (c # cs) ev"
        using ih(3) e \<open>onmessage c = Some h\<close> by simp
      have d: "s' = afterCalls invoke calls s" using ih(5) e i1 by simp
      have n: "calls = [] \<longrightarrow> out = None" using e(1) by simp
      show ?thesis using a b c n d by blast
    qed
  qed
qed

text \<open>
  C8, as amended. On an \<open>APP_MESSAGE\<close> window message the polyfill's variables stay as they
  are, and the listener calls \<open>onmessage\<close>, with a \<open>message\<close> event that carries the data of
  the window message, for the connections of the list whose \<open>onmessage\<close> slot holds a
  function, in list order, until a call raises: the calls made are an initial part of
  the calls for all those connections, every call made but the last returns, and the
  last returns or raises the error that ends the listener. When no call raises, every
  connection with a handler is called, once. Origin and source of the window message play
  no part.
\<close>

theorem app_message_fan_out:
  assumes "message_type e = ''APP_MESSAGE''"
  shows "case windowListener invoke e p s of
      (p', calls, out, s') \<Rightarrow>
        p' = p \<and>
        calls = take (length calls)
                  (handlerCalls 0 (connections (connectionList p))
                     \<lparr>event_type = ''message'', event_data = message_data e\<rparr>) \<and>
        (\<forall>j<length calls. fst (invoke (calls ! j) (afterCalls invoke (take j calls) s))
            = (if Suc j = length calls then out else None)) \<and>
        (out = None \<longrightarrow>
           calls = handlerCalls 0 (connections (connectionList p))
                     \<lparr>event_type = ''message'', event_data = message_data e\<rparr>) \<and>
        (calls = [] \<longrightarrow> out = None) \<and>
        s' = afterCalls invoke calls s \<and>
        (\<forall>i h ev. (OnMessage i h ev \<in> set (handlerCalls 0 (connections (connectionList p))
                     \<lparr>event_type = ''message'', event_data = message_data e\<rparr>)) =
           (i < length (connections (connectionList p)) \<and>
            onmessage (connections (connectionList p) ! i) = Some h \<and>
            ev = \<lparr>event_type = ''message'', event_data = message_data e\<rparr>)) \<and>
        length (handlerCalls 0 (connections (connectionList p))
                  \<lparr>event_type = ''message'', event_data = message_data e\<rparr>) =
          length (filter (\<lambda>c. onmessage c \<noteq> None) (connections (connectionList p))) \<and>
        windowListener invoke (e\<lparr>origin := og, source := sr\<rparr>) p s = windowListener invoke e p s"
proof -
  let ?ev = "\<lparr>event_type = ''message'', event_data = message_data e\<rparr>"
  let ?cs = "connections (connectionList p)"
  obtain calls out s' where f: "forEachOnMessage invoke 0 ?cs ?ev s = (calls, out, s')"
    by (cases "forEachOnMessage invoke 0 ?cs ?ev s") auto
  have w: "windowListener invoke e p s = (p, calls, out, s')"
    using assms f by (simp add: windowListener_def)
  have w': "windowListener invoke (e\<lparr>origin := og, source := sr\<rparr>) p s = windowListener invoke e p s"
    using assms by (simp add: windowListener_def)
  show ?thesis
    unfolding w' unfolding w using forEachOnMessage_spec[OF f]
    by (simp add: handlerCalls_calls handlerCalls_length)
qed

text \<open>
  C8 as stated fails when a handler raises. Both connections of the list hold the
  receiver's message handler; the data of the window message is not JSON, so the first
  call raises a SyntaxError, and the second connection is not called.
\<close>

theorem app_message_fan_out_counterexample:
  "windowListener (receiverPage exampleParse) notJSONFromB
       \<lparr>connectionList = bothListening, connectionListResolved = True\<rparr> initial =
     (\<lparr>connectionList = bothListening, connectionListResolved = True\<rparr>,
      [OnMessage 0 OnmessageFunction \<lparr>event_type = ''message'', event_data = ''not JSON''\<rparr>],
      Some SyntaxError, initial) \<and>
   connections bothListening = [controllerA, listeningB] \<and>
   onmessage listeningB = Some OnmessageFunction"
  by (simp add: windowListener_def notJSONFromB_def bothListening_def controllerA_def
      listeningB_def onmessageHandler_def exampleParse_def)

theorem app_message_fan_out_witness:
  "message_type appMessageFromB = ''APP_MESSAGE'' \<and>
   fst (snd (windowListener (receiverPage exampleParse) appMessageFromB
       \<lparr>connectionList = twoControllers, connectionListResolved = True\<rparr> initial)) =
     [OnMessage 0 OnmessageFunction \<lparr>event_type = ''message'', event_data = ''add A''\<rparr>] \<and>
   fst (snd (snd (windowListener (receiverPage exampleParse) appMessageFromB
       \<lparr>connectionList = twoControllers, connectionListResolved = True\<rparr> initial))) = None"
proof -
  let ?p = "\<lparr>connectionList = twoControllers, connectionListResolved = True\<rparr>"
  let ?w = "windowListener (receiverPage exampleParse) appMessageFromB ?p initial"
  have h: "message_type appMessageFromB = ''APP_MESSAGE''" by (simp add: appMessageFromB_def)
  obtain p' calls out s' where w: "?w = (p', calls, out, s')" by (cases ?w) auto
  have o: "out = None"
    using w
    by (simp add: windowListener_def appMessageFromB_def twoControllers_def controllerA_def
        controllerB_def onmessageHandler_def exampleParse_def switchAction_def addImage_def
        broadcastMessage_def getImageId_def showNextImage_def preloadNextImage_def
        setTimeout_def clearTimeout_def element_def initial_def photoA_def Let_def
        split: sum.splits)
  from app_message_fan_out[where invoke = "receiverPage exampleParse" and p = ?p
      and s = initial, OF h] o
  have "calls = handlerCalls 0 (connections (connectionList ?p))
                     \<lparr>event_type = ''message'', event_data = message_data appMessageFromB\<rparr>"
    unfolding w by simp
  then have "calls = [OnMessage 0 OnmessageFunction \<lparr>event_type = ''message'', event_data = ''add A''\<rparr>]"
    by (simp add: twoControllers_def controllerA_def controllerB_def appMessageFromB_def)
  then show ?thesis using h o w by simp
qed

subsection \<open>The two receiver scripts\<close>

text \<open>
  C10, as amended. In receiver.js \<open>addConnection\<close> sends the serialized state to the new
  connection at once and stores the message handler. In the script of
  src/unnamed/part_000 \<open>addConnection\<close> sends nothing: it stores the message handler and an
  \<open>onconnect\<close> function, and that function sends the serialized state of the moment when
  it is called. The message handlers of the two scripts handle every message alike.
\<close>

theorem receiver_scripts_compared:
  "posted (snd (addConnection JSON_stringify connection r)) =
     posted r @ [(messageSource connection, messageOrigin connection, JSON_stringify (slideshow r))] \<and>
   onmessage (fst (addConnection JSON_stringify connection r)) = Some OnmessageFunction \<and>
   snd (addConnection_part000 connection' r) = r \<and>
   onconnect (fst (addConnection_part000 connection' r)) = Some OnconnectFunction_part000 \<and>
   onmessage (fst (addConnection_part000 connection' r)) = Some OnmessageFunction_part000 \<and>
   posted (onconnectHandler_part000 JSON_stringify (fst (addConnection_part000 connection' r)) r') =
     posted r' @ [(messageSource connection', messageOrigin connection',
                   JSON_stringify (slideshow r'))] \<and>
   onmessageHandler_part000 JSON_parse e r = onmessageHandler JSON_parse e r"
  by (simp add: addConnection_def addConnection_part000_def onconnectHandler_part000_def
      onmessageHandler_part000_def onmessageHandler_def sendMessage_def send_def Let_def)

text \<open>
  C10 as stated fails at registration: for a new connection and the initial state,
  receiver.js has posted the state, the other script has posted nothing.
\<close>

theorem addConnection_part000_counterexample:
  "posted (snd (addConnection exampleStringify freshConnection initial)) =
     [(''window A'', ''https://a.example'', ''fadeIn'')] \<and>
   posted (snd (addConnection_part000 freshConnection initial)) = []"
  by (simp add: addConnection_def addConnection_part000_def sendMessage_def send_def Let_def
      exampleStringify_def freshConnection_def initial_def DEFAULT_SLIDESHOW_ANIMATION_def)

end
